theory Spec2Isabelle
  imports Main
begin

section \<open>Strings as the extractor sees them\<close>

text \<open>
  The text handed to the extractor is a Python \<^verbatim>\<open>str\<close>.  It is modelled as a
  \<^typ>\<open>string\<close> whose characters are the code points below 256.  In that range the
  decimal digits of \<^verbatim>\<open>\d\<close> and of \<^verbatim>\<open>int()\<close> are \<^verbatim>\<open>0\<close> to \<^verbatim>\<open>9\<close>, and the white space of
  \<^verbatim>\<open>\s\<close> and \<^verbatim>\<open>str.strip()\<close> is the set below; \<^verbatim>\<open>int()\<close> trims a smaller set.  Integers
  are unbounded, and \<^verbatim>\<open>int()\<close> refuses more than 4300 digits, the default of
  \<^verbatim>\<open>sys.int_max_str_digits\<close>.
\<close>

datatype py_error = IndexError | ValueError

definition is_digit :: "char \<Rightarrow> bool" where
  "is_digit c = (c \<in> set ''0123456789'')"

definition is_space :: "char \<Rightarrow> bool" where
  "is_space c = (c \<in> set [CHR 0x09, CHR 0x0A, CHR 0x0B, CHR 0x0C, CHR 0x0D,
                            CHR 0x1C, CHR 0x1D, CHR 0x1E, CHR 0x1F, CHR 0x20,
                            CHR 0x85, CHR 0xA0])"

text \<open>\<^verbatim>\<open>s.strip()\<close>: white space removed at both ends.\<close>

definition strip :: "string \<Rightarrow> string" where
  "strip s = rev (dropWhile is_space (rev (dropWhile is_space s)))"

text \<open>\<^verbatim>\<open>s.split(c)\<close> for a one-character separator: always at least one part.\<close>

fun split_on :: "char \<Rightarrow> string \<Rightarrow> string list" where
  "split_on c [] = [[]]"
| "split_on c (x # xs) =
     (if x = c then [] # split_on c xs
      else (case split_on c xs of
              [] \<Rightarrow> [[x]]
            | y # ys \<Rightarrow> (x # y) # ys))"

text \<open>\<^verbatim>\<open>sep.join(parts)\<close>.\<close>

fun join :: "string \<Rightarrow> string list \<Rightarrow> string" where
  "join sep [] = []"
| "join sep [x] = x"
| "join sep (x # y # ys) = x @ sep @ join sep (y # ys)"

text \<open>Indexing that raises \<^verbatim>\<open>IndexError\<close> out of range.\<close>

definition nth_e :: "'a list \<Rightarrow> nat \<Rightarrow> py_error + 'a" where
  "nth_e xs i = (if i < length xs then Inr (xs ! i) else Inl IndexError)"

text \<open>Truth value of a dictionary entry that is \<^verbatim>\<open>None\<close> or a string.\<close>

fun truthy :: "string option \<Rightarrow> bool" where
  "truthy None = False"
| "truthy (Some s) = (s \<noteq> [])"

subsection \<open>\<^verbatim>\<open>int()\<close> on a string, and integer formatting\<close>

definition digit_val :: "char \<Rightarrow> nat" where
  "digit_val c = of_char c - 48"

definition digit_char :: "nat \<Rightarrow> char" where
  "digit_char n = ''0123456789'' ! n"

text \<open>
  The digits after the first one: further digits, each optionally preceded by a single
  underscore.
\<close>

fun int_body :: "nat \<Rightarrow> string \<Rightarrow> nat option" where
  "int_body acc [] = Some acc"
| "int_body acc (c # cs) =
     (if is_digit c then int_body (10 * acc + digit_val c) cs
      else if c = CHR ''_'' then
        (case cs of
           [] \<Rightarrow> None
         | d # ds \<Rightarrow> if is_digit d then int_body (10 * acc + digit_val d) ds else None)
      else None)"

text \<open>
  The digits of a string are counted whether they lead or not, underscores apart; more
  than \<^verbatim>\<open>sys.int_max_str_digits\<close> of them are refused.
\<close>

definition int_max_str_digits :: nat where
  "int_max_str_digits = 4300"

definition int_unsigned :: "string \<Rightarrow> nat option" where
  "int_unsigned b = (case b of
       [] \<Rightarrow> None
     | d # ds \<Rightarrow>
         if is_digit d then
           (if length (filter is_digit b) > int_max_str_digits then None
            else int_body (digit_val d) ds)
         else None)"

text \<open>
  The white space \<^verbatim>\<open>int()\<close> trims: the six ASCII characters \<^verbatim>\<open>\t \n \v \f \r\<close> and the
  space, and the two white-space code points above 127.  The separators \<^verbatim>\<open>0x1C\<close> to
  \<^verbatim>\<open>0x1F\<close>, which \<^verbatim>\<open>str.strip()\<close> removes, are not among them.
\<close>

definition is_int_space :: "char \<Rightarrow> bool" where
  "is_int_space c = (c \<in> set [CHR 0x09, CHR 0x0A, CHR 0x0B, CHR 0x0C, CHR 0x0D, CHR 0x20,
                                CHR 0x85, CHR 0xA0])"

definition int_strip :: "string \<Rightarrow> string" where
  "int_strip s = rev (dropWhile is_int_space (rev (dropWhile is_int_space s)))"

text \<open>
  \<^verbatim>\<open>int(s)\<close> in base ten: surrounding white space, one optional sign directly before the
  digits.  \<open>None\<close> stands for the \<^verbatim>\<open>ValueError\<close>.
\<close>

definition py_int :: "string \<Rightarrow> int option" where
  "py_int s = (case int_strip s of
       [] \<Rightarrow> None
     | c # cs \<Rightarrow>
         if c = CHR ''-'' then map_option (\<lambda>n. - int n) (int_unsigned cs)
         else if c = CHR ''+'' then map_option int (int_unsigned cs)
         else map_option int (int_unsigned (c # cs)))"

fun show_nat :: "nat \<Rightarrow> string" where
  "show_nat n = (if n < 10 then [digit_char n]
                 else show_nat (n div 10) @ [digit_char (n mod 10)])"

declare show_nat.simps [simp del]

text \<open>\<^verbatim>\<open>f"{year}"\<close>.\<close>

definition show_int :: "int \<Rightarrow> string" where
  "show_int i = (if i < 0 then CHR ''-'' # show_nat (nat (- i)) else show_nat (nat i))"

text \<open>\<^verbatim>\<open>f"{n:02d}"\<close>: sign-aware zero padding to a total width of two.\<close>

definition fmt02d :: "int \<Rightarrow> string" where
  "fmt02d i = (if i < 0 then CHR ''-'' # show_nat (nat (- i))
               else (let s = show_nat (nat i) in replicate (2 - length s) CHR ''0'' @ s))"

section \<open>The date resolver\<close>

text \<open>
  \<^verbatim>\<open>from_year, from_month, from_day = map(int, period.split('-'))\<close>: exactly three
  parts, each an integer; anything else raises.
\<close>

definition parse_period :: "string \<Rightarrow> (int \<times> int \<times> int) option" where
  "parse_period p = (case split_on CHR ''-'' p of
       [a, b, c] \<Rightarrow>
         (case py_int a of None \<Rightarrow> None | Some y \<Rightarrow>
          case py_int b of None \<Rightarrow> None | Some m \<Rightarrow>
          case py_int c of None \<Rightarrow> None | Some d \<Rightarrow> Some (y, m, d))
     | _ \<Rightarrow> None)"

text \<open>The body of the \<^verbatim>\<open>try\<close> block; \<open>None\<close> is any exception raised inside it.\<close>

definition convert_try :: "string \<Rightarrow> string \<Rightarrow> string \<Rightarrow> string option" where
  "convert_try mm_dd period_from period_to =
     (case split_on CHR ''/'' mm_dd of
        [ms, ds] \<Rightarrow>
          (case py_int ms of None \<Rightarrow> None | Some month \<Rightarrow>
           case py_int ds of None \<Rightarrow> None | Some day \<Rightarrow>
           case parse_period period_from of None \<Rightarrow> None | Some (from_year, from_month, from_day) \<Rightarrow>
           case parse_period period_to of None \<Rightarrow> None | Some (to_year, to_month, to_day) \<Rightarrow>
             (let year = (if from_year = to_year then from_year
                          else if month \<ge> from_month then from_year
                          else to_year)
              in Some (show_int year @ ''-'' @ fmt02d month @ ''-'' @ fmt02d day)))
      | _ \<Rightarrow> None)"

text \<open>
  \<^verbatim>\<open>convert_mm_dd_to_full_date\<close>: the guard on empty or missing arguments, then the
  \<^verbatim>\<open>try\<close> block whose bare \<^verbatim>\<open>except\<close> returns the token.
\<close>

fun convert_mm_dd_to_full_date :: "string \<Rightarrow> string option \<Rightarrow> string option \<Rightarrow> string" where
  "convert_mm_dd_to_full_date mm_dd (Some period_from) (Some period_to) =
     (if mm_dd = [] \<or> period_from = [] \<or> period_to = [] then mm_dd
      else (case convert_try mm_dd period_from period_to of
              None \<Rightarrow> mm_dd
            | Some full \<Rightarrow> full))"
| "convert_mm_dd_to_full_date mm_dd _ _ = mm_dd"

section \<open>The patterns\<close>

text \<open>
  Each regular expression of the source is written as the recogniser of its language.
  The character classes that follow one another in these patterns are disjoint (a sign,
  white space, digits and commas, the dot, letters), so the longest run of each class is
  the only way to match and back-tracking finds nothing else.
\<close>

text \<open>\<^verbatim>\<open>$\<close>: the end of the string, or the position before a newline that ends it.\<close>

definition at_end :: "string \<Rightarrow> bool" where
  "at_end s = (s = [] \<or> s = [CHR 0x0A])"

text \<open>\<^verbatim>\<open>re.match(r'^\d{2}/\d{2}$', line)\<close>.\<close>

definition is_date :: "string \<Rightarrow> bool" where
  "is_date s = (case s of
       a # b # sl # c # d # rest \<Rightarrow>
         is_digit a \<and> is_digit b \<and> sl = CHR ''/'' \<and> is_digit c \<and> is_digit d \<and> at_end rest
     | _ \<Rightarrow> False)"

text \<open>\<^verbatim>\<open>re.match(r'^[-+]?\s*[\d,]+\.\d{2}$', line)\<close>.\<close>

definition is_money_char :: "char \<Rightarrow> bool" where
  "is_money_char c = (is_digit c \<or> c = CHR '','')"

definition drop_sign :: "string \<Rightarrow> string" where
  "drop_sign s = (case s of
       [] \<Rightarrow> []
     | c # cs \<Rightarrow> if c = CHR ''-'' \<or> c = CHR ''+'' then cs else s)"

definition money_tail :: "string \<Rightarrow> bool" where
  "money_tail s = (case s of
       p # a # b # rest \<Rightarrow> p = CHR ''.'' \<and> is_digit a \<and> is_digit b \<and> at_end rest
     | _ \<Rightarrow> False)"

definition is_money :: "string \<Rightarrow> bool" where
  "is_money s = (let t = dropWhile is_space (drop_sign s)
                 in takeWhile is_money_char t \<noteq> [] \<and> money_tail (dropWhile is_money_char t))"

text \<open>
  Group 1 of the balance pattern \<^verbatim>\<open>^([-+]?\s*[\d,]+\.\d{2})$\<close> on a line that matches:
  the line without the newline that \<^verbatim>\<open>$\<close> may have left unmatched.
\<close>

definition money_group :: "string \<Rightarrow> string" where
  "money_group s = (if s \<noteq> [] \<and> last s = CHR 0x0A then butlast s else s)"

definition balance_match :: "string \<Rightarrow> string option" where
  "balance_match s = (if is_money s then Some (money_group s) else None)"

text \<open>\<^verbatim>\<open>s.lower()\<close> on code points below 256, and \<^verbatim>\<open>sub in s\<close>.\<close>

definition lower_char :: "char \<Rightarrow> char" where
  "lower_char c = (let n = (of_char c :: nat)
                   in if (65 \<le> n \<and> n \<le> 90) \<or> (192 \<le> n \<and> n \<le> 222 \<and> n \<noteq> 215)
                      then char_of (n + 32) else c)"

definition lower :: "string \<Rightarrow> string" where
  "lower s = map lower_char s"

definition starts_with :: "string \<Rightarrow> string \<Rightarrow> bool" where
  "starts_with s p = (take (length p) s = p)"

fun contains :: "string \<Rightarrow> string \<Rightarrow> bool" where
  "contains [] p = (p = [])"
| "contains (c # s) p = (starts_with (c # s) p \<or> contains s p)"

text \<open>
  \<^verbatim>\<open>re.search(r'from\s+(\d{2}\.\d{2}\.\d{4})\s+to\s+(\d{2}\.\d{2}\.\d{4})', line, re.IGNORECASE)\<close>:
  the pieces of the pattern, each returning what is left of the line, the match at one
  position, and the search for the leftmost position that matches.  The result is the
  pair of groups 1 and 2.
\<close>

definition take_word :: "string \<Rightarrow> string \<Rightarrow> string option" where
  "take_word w s = (if length w \<le> length s \<and> lower (take (length w) s) = w
                    then Some (drop (length w) s) else None)"

definition take_spaces :: "string \<Rightarrow> string option" where
  "take_spaces s = (if takeWhile is_space s = [] then None else Some (dropWhile is_space s))"

definition take_date :: "string \<Rightarrow> (string \<times> string) option" where
  "take_date s = (case s of
       a # b # p # c # d # q # e # f # g # h # rest \<Rightarrow>
         if is_digit a \<and> is_digit b \<and> p = CHR ''.'' \<and> is_digit c \<and> is_digit d \<and> q = CHR ''.''
            \<and> is_digit e \<and> is_digit f \<and> is_digit g \<and> is_digit h
         then Some ([a, b, p, c, d, q, e, f, g, h], rest) else None
     | _ \<Rightarrow> None)"

definition match_period_at :: "string \<Rightarrow> (string \<times> string) option" where
  "match_period_at s =
     (case take_word ''from'' s of None \<Rightarrow> None | Some s1 \<Rightarrow>
      case take_spaces s1 of None \<Rightarrow> None | Some s2 \<Rightarrow>
      case take_date s2 of None \<Rightarrow> None | Some (g1, s3) \<Rightarrow>
      case take_spaces s3 of None \<Rightarrow> None | Some s4 \<Rightarrow>
      case take_word ''to'' s4 of None \<Rightarrow> None | Some s5 \<Rightarrow>
      case take_spaces s5 of None \<Rightarrow> None | Some s6 \<Rightarrow>
      case take_date s6 of None \<Rightarrow> None | Some (g2, s7) \<Rightarrow> Some (g1, g2))"

fun period_search :: "string \<Rightarrow> (string \<times> string) option" where
  "period_search [] = match_period_at []"
| "period_search (c # s) = (case match_period_at (c # s) of
       Some groups \<Rightarrow> Some groups
     | None \<Rightarrow> period_search s)"

section \<open>The transaction parser\<close>

text \<open>\<^verbatim>\<open>lines = [line.strip() for line in text.split('\n')]\<close>.\<close>

definition lines_of :: "string \<Rightarrow> string list" where
  "lines_of text = map strip (split_on CHR 0x0A text)"

definition markers :: "string list" where
  "markers = [''Statement Page'', ''Branch number'', ''New balance'', ''Important notes'',
              ''German bank code'']"

text \<open>
  The loops move a cursor \<open>i\<close> over \<open>lines\<close>.  Every \<^verbatim>\<open>lines[i]\<close> is the checked
  \<^const>\<open>nth_e\<close>, so an index out of range would be the error value.

  \<^verbatim>\<open>while i < len(lines) and not lines[i]: i += 1\<close>
\<close>

function skip_blank :: "string list \<Rightarrow> nat \<Rightarrow> py_error + nat" where
  "skip_blank lines i =
     (if i < length lines then
        (case nth_e lines i of
           Inl e \<Rightarrow> Inl e
         | Inr l \<Rightarrow> if l = [] then skip_blank lines (i + 1) else Inr i)
      else Inr i)"
  by pat_completeness auto
termination
  by (relation "measure (\<lambda>(lines, i). length lines - i)") auto

declare skip_blank.simps [simp del]

text \<open>
  The inner \<^verbatim>\<open>while i < len(lines)\<close> that collects the description parts and the amount.
  It returns the cursor, the parts and the amount as the \<^verbatim>\<open>break\<close> or the loop condition
  leaves them.
\<close>

function collect_body ::
  "string list \<Rightarrow> nat \<Rightarrow> string list \<Rightarrow> string option \<Rightarrow> py_error + (nat \<times> string list \<times> string option)" where
  "collect_body lines i description_parts amount =
     (if i < length lines then
        (case nth_e lines i of
           Inl e \<Rightarrow> Inl e
         | Inr next_line \<Rightarrow>
             if is_date next_line then Inr (i, description_parts, amount)
             else if next_line \<in> set markers then Inr (i, description_parts, amount)
             else if is_money next_line then
               collect_body lines (i + 1) description_parts (Some (strip next_line))
             else if next_line \<noteq> [] then
               collect_body lines (i + 1) (description_parts @ [next_line]) amount
             else collect_body lines (i + 1) description_parts amount)
      else Inr (i, description_parts, amount))"
  by pat_completeness auto
termination
  by (relation "measure (\<lambda>(lines, i, ps, a). length lines - i)") auto

declare collect_body.simps [simp del]

lemma skip_blank_ge: "skip_blank lines i = Inr k \<Longrightarrow> i \<le> k"
proof (induction lines i rule: skip_blank.induct)
  case (1 lines i)
  from "1.prems" show ?case
    apply (subst (asm) skip_blank.simps)
    using "1.IH" by (fastforce split: if_splits sum.splits)
qed

lemma collect_body_ge: "collect_body lines i ps a = Inr (k, ps', a') \<Longrightarrow> i \<le> k"
proof (induction lines i ps a rule: collect_body.induct)
  case (1 lines i ps a)
  from "1.prems" show ?case
    apply (subst (asm) collect_body.simps)
    using "1.IH" by (fastforce split: if_splits sum.splits)
qed

text \<open>The dictionary appended for each transaction.\<close>

record transaction =
  booking_date :: string
  value_date :: string
  description :: string
  amount :: string

text \<open>
  The outer loop of \<^verbatim>\<open>extract_transactions\<close> in \<^verbatim>\<open>src/extract_with_ocr.py\<close>.  A
  \<^verbatim>\<open>continue\<close> is the loop called again at the cursor reached.
\<close>

function extract_loop :: "string list \<Rightarrow> nat \<Rightarrow> transaction list \<Rightarrow> py_error + transaction list" where
  "extract_loop lines i transactions =
     (if i < length lines then
        (case nth_e lines i of
           Inl e \<Rightarrow> Inl e
         | Inr line \<Rightarrow>
             if is_date line then
               (case skip_blank lines (i + 1) of
                  Inl e \<Rightarrow> Inl e
                | Inr i1 \<Rightarrow>
                    if i1 \<ge> length lines then extract_loop lines i1 transactions
                    else (case nth_e lines i1 of
                       Inl e \<Rightarrow> Inl e
                     | Inr value_line \<Rightarrow>
                         if \<not> is_date value_line then extract_loop lines i1 transactions
                         else (case collect_body lines (i1 + 1) [] None of
                            Inl e \<Rightarrow> Inl e
                          | Inr (i2, description_parts, amt) \<Rightarrow>
                              (let description = strip (join '' '' description_parts)
                               in if description \<noteq> [] \<and> truthy amt then
                                    extract_loop lines i2
                                      (transactions @
                                        [\<lparr>booking_date = line, value_date = value_line,
                                          description = description, amount = the amt\<rparr>])
                                  else extract_loop lines i2 transactions))))
             else extract_loop lines (i + 1) transactions)
      else Inr transactions)"
  by pat_completeness auto
termination
proof (relation "measure (\<lambda>(lines, i, ts). length lines - i)", goal_cases)
  case 1
  show ?case by simp
next
  case (2 lines i ts line i1)
  then show ?case by simp
next
  case (3 lines i ts line i1 value_line)
  then show ?case by (auto dest: skip_blank_ge)
next
  case (4 lines i ts line i1 value_line x i2 y parts amount)
  then show ?case by (auto dest!: skip_blank_ge collect_body_ge)
next
  case (5 lines i ts line i1 value_line x i2 y parts amount)
  then show ?case by (auto dest!: skip_blank_ge collect_body_ge)
next
  case 6
  then show ?case by simp
qed

declare extract_loop.simps [simp del]

definition extract_transactions :: "string \<Rightarrow> py_error + transaction list" where
  "extract_transactions text = extract_loop (lines_of text) 0 []"

text \<open>
  \<^verbatim>\<open>extract_transactions\<close> in \<^verbatim>\<open>src/_src/extract_with_ocr.py\<close>, which takes the statement
  period.  Its loop is the loop above with the two dates passed through the resolver
  when a transaction is appended.
\<close>

function extract_loop_period ::
  "string option \<Rightarrow> string option \<Rightarrow> string list \<Rightarrow> nat \<Rightarrow> transaction list
     \<Rightarrow> py_error + transaction list" where
  "extract_loop_period period_from period_to lines i transactions =
     (if i < length lines then
        (case nth_e lines i of
           Inl e \<Rightarrow> Inl e
         | Inr line \<Rightarrow>
             if is_date line then
               (case skip_blank lines (i + 1) of
                  Inl e \<Rightarrow> Inl e
                | Inr i1 \<Rightarrow>
                    if i1 \<ge> length lines then
                      extract_loop_period period_from period_to lines i1 transactions
                    else (case nth_e lines i1 of
                       Inl e \<Rightarrow> Inl e
                     | Inr value_line \<Rightarrow>
                         if \<not> is_date value_line then
                           extract_loop_period period_from period_to lines i1 transactions
                         else (case collect_body lines (i1 + 1) [] None of
                            Inl e \<Rightarrow> Inl e
                          | Inr (i2, description_parts, amt) \<Rightarrow>
                              (let description = strip (join '' '' description_parts)
                               in if description \<noteq> [] \<and> truthy amt then
                                    extract_loop_period period_from period_to lines i2
                                      (transactions @
                                        [\<lparr>booking_date =
                                            convert_mm_dd_to_full_date line period_from period_to,
                                          value_date =
                                            convert_mm_dd_to_full_date value_line period_from period_to,
                                          description = description, amount = the amt\<rparr>])
                                  else extract_loop_period period_from period_to lines i2
                                         transactions))))
             else extract_loop_period period_from period_to lines (i + 1) transactions)
      else Inr transactions)"
  by pat_completeness auto
termination
proof (relation "measure (\<lambda>(pf, pt, lines, i, ts). length lines - i)", goal_cases)
  case 1
  show ?case by simp
next
  case (2 pf pt lines i ts line i1)
  then show ?case by simp
next
  case (3 pf pt lines i ts line i1 value_line)
  then show ?case by (auto dest: skip_blank_ge)
next
  case (4 pf pt lines i ts line i1 value_line x i2 y parts amt)
  then show ?case by (auto dest!: skip_blank_ge collect_body_ge)
next
  case (5 pf pt lines i ts line i1 value_line x i2 y parts amt)
  then show ?case by (auto dest!: skip_blank_ge collect_body_ge)
next
  case 6
  then show ?case by simp
qed

declare extract_loop_period.simps [simp del]

text \<open>
  \<^verbatim>\<open>if period: year = int(period.split('-')[0])\<close>, outside any \<^verbatim>\<open>try\<close>: a first part
  that is not an integer raises.
\<close>

fun period_year :: "string option \<Rightarrow> py_error + int option" where
  "period_year None = Inr None"
| "period_year (Some p) =
     (if p = [] then Inr None
      else (case nth_e (split_on CHR ''-'' p) 0 of
              Inl e \<Rightarrow> Inl e
            | Inr y \<Rightarrow> (case py_int y of
                          None \<Rightarrow> Inl ValueError
                        | Some n \<Rightarrow> Inr (Some n))))"

definition extract_transactions_period ::
  "string \<Rightarrow> string option \<Rightarrow> string option \<Rightarrow> py_error + transaction list" where
  "extract_transactions_period text period_from period_to =
     (case period_year period_from of
        Inl e \<Rightarrow> Inl e
      | Inr year_from \<Rightarrow>
          (case period_year period_to of
             Inl e \<Rightarrow> Inl e
           | Inr year_to \<Rightarrow> extract_loop_period period_from period_to (lines_of text) 0 []))"

section \<open>The metadata extractor\<close>

text \<open>
  The dictionary of \<^verbatim>\<open>extract_statement_metadata\<close> in \<^verbatim>\<open>src/extract_with_ocr.py\<close>, and
  the one of \<^verbatim>\<open>src/_src/extract_with_ocr.py\<close>, which has the entry \<^verbatim>\<open>year\<close> as well.
\<close>

record statement_metadata =
  statement_date :: "string option"
  period_from :: "string option"
  period_to :: "string option"
  opening_balance :: "string option"
  closing_balance :: "string option"

record statement_metadata_year = statement_metadata +
  year :: "string option"

text \<open>
  \<^verbatim>\<open>d = group.split('.')\<close> and \<^verbatim>\<open>f"{d[2]}-{d[1]}-{d[0]}"\<close>, each index checked.
\<close>

definition iso_date :: "string \<Rightarrow> py_error + string" where
  "iso_date g = (let d = split_on CHR ''.'' g in
     case nth_e d 2 of Inl e \<Rightarrow> Inl e | Inr yyyy \<Rightarrow>
     case nth_e d 1 of Inl e \<Rightarrow> Inl e | Inr mm \<Rightarrow>
     case nth_e d 0 of Inl e \<Rightarrow> Inl e | Inr dd \<Rightarrow> Inr (yyyy @ ''-'' @ mm @ ''-'' @ dd))"

text \<open>The \<^verbatim>\<open>if period_match:\<close> block, which has no guard on a period already set.\<close>

definition set_period :: "string \<Rightarrow> statement_metadata \<Rightarrow> py_error + statement_metadata" where
  "set_period line metadata = (case period_search line of
       None \<Rightarrow> Inr metadata
     | Some (g1, g2) \<Rightarrow>
         (case iso_date g1 of Inl e \<Rightarrow> Inl e | Inr from_iso \<Rightarrow>
          case iso_date g2 of Inl e \<Rightarrow> Inl e | Inr to_iso \<Rightarrow>
            Inr (metadata\<lparr>period_from := Some from_iso, period_to := Some to_iso,
                           statement_date := Some to_iso\<rparr>)))"

definition set_period_year ::
  "string \<Rightarrow> statement_metadata_year \<Rightarrow> py_error + statement_metadata_year" where
  "set_period_year line metadata = (case period_search line of
       None \<Rightarrow> Inr metadata
     | Some (g1, g2) \<Rightarrow>
         (case iso_date g1 of Inl e \<Rightarrow> Inl e | Inr from_iso \<Rightarrow>
          case iso_date g2 of Inl e \<Rightarrow> Inl e | Inr to_iso \<Rightarrow>
          case nth_e (split_on CHR ''.'' g2) 2 of Inl e \<Rightarrow> Inl e | Inr yyyy \<Rightarrow>
            Inr (metadata\<lparr>period_from := Some from_iso, period_to := Some to_iso,
                           statement_date := Some to_iso, year := Some yyyy\<rparr>)))"

text \<open>
  \<^verbatim>\<open>for j in range(a, b)\<close> over the indices given: the first line that matches the
  balance pattern gives the trimmed group 1, and \<^verbatim>\<open>break\<close>.
\<close>

fun scan_balance :: "string list \<Rightarrow> nat list \<Rightarrow> py_error + string option" where
  "scan_balance lines [] = Inr None"
| "scan_balance lines (j # js) = (case nth_e lines j of
       Inl e \<Rightarrow> Inl e
     | Inr l \<Rightarrow> (case balance_match l of
                   Some g \<Rightarrow> Inr (Some (strip g))
                 | None \<Rightarrow> scan_balance lines js))"

text \<open>
  The body of \<^verbatim>\<open>for i, line in enumerate(lines)\<close> in \<^verbatim>\<open>src/extract_with_ocr.py\<close>.  The
  opening balance is looked for from the line of the phrase itself, over five lines, on
  either phrase, and whatever was found before.  (The \<^verbatim>\<open>date_match\<close> of the source is
  never used.)
\<close>

definition metadata_step ::
  "string list \<Rightarrow> nat \<Rightarrow> string \<Rightarrow> statement_metadata \<Rightarrow> py_error + statement_metadata" where
  "metadata_step lines i line metadata =
     (case set_period line metadata of Inl e \<Rightarrow> Inl e | Inr m1 \<Rightarrow>
      case (if contains (lower line) ''previous balance'' \<or> contains (lower line) ''balance as at''
            then (case scan_balance lines [i ..< min (i + 5) (length lines)] of
                    Inl e \<Rightarrow> Inl e
                  | Inr None \<Rightarrow> Inr m1
                  | Inr (Some b) \<Rightarrow> Inr (m1\<lparr>opening_balance := Some b\<rparr>))
            else Inr m1) of Inl e \<Rightarrow> Inl e | Inr m2 \<Rightarrow>
      (if lower line = ''new balance''
       then (case scan_balance lines [i + 1 ..< min (i + 5) (length lines)] of
               Inl e \<Rightarrow> Inl e
             | Inr None \<Rightarrow> Inr m2
             | Inr (Some b) \<Rightarrow> Inr (m2\<lparr>closing_balance := Some b\<rparr>))
       else Inr m2))"

text \<open>
  The body of the same loop in \<^verbatim>\<open>src/_src/extract_with_ocr.py\<close>: each balance is looked
  for only while it is unset, from the line after the phrase up to index \<open>i + 24\<close>.
\<close>

definition metadata_step_year ::
  "string list \<Rightarrow> nat \<Rightarrow> string \<Rightarrow> statement_metadata_year \<Rightarrow> py_error + statement_metadata_year" where
  "metadata_step_year lines i line metadata =
     (case set_period_year line metadata of Inl e \<Rightarrow> Inl e | Inr m1 \<Rightarrow>
      case (if contains (lower line) ''previous balance'' \<and> \<not> truthy (opening_balance m1)
            then (case scan_balance lines [i + 1 ..< min (i + 25) (length lines)] of
                    Inl e \<Rightarrow> Inl e
                  | Inr None \<Rightarrow> Inr m1
                  | Inr (Some b) \<Rightarrow> Inr (m1\<lparr>opening_balance := Some b\<rparr>))
            else Inr m1) of Inl e \<Rightarrow> Inl e | Inr m2 \<Rightarrow>
      (if contains (lower line) ''new balance'' \<and> \<not> truthy (closing_balance m2)
       then (case scan_balance lines [i + 1 ..< min (i + 25) (length lines)] of
               Inl e \<Rightarrow> Inl e
             | Inr None \<Rightarrow> Inr m2
             | Inr (Some b) \<Rightarrow> Inr (m2\<lparr>closing_balance := Some b\<rparr>))
       else Inr m2))"

text \<open>A \<^verbatim>\<open>for\<close> loop over \<^verbatim>\<open>enumerate(lines)\<close> that stops at the first exception.\<close>

fun for_each :: "(nat \<Rightarrow> string \<Rightarrow> 'm \<Rightarrow> py_error + 'm) \<Rightarrow> (nat \<times> string) list \<Rightarrow> 'm \<Rightarrow> py_error + 'm" where
  "for_each step [] m = Inr m"
| "for_each step ((i, line) # rest) m = (case step i line m of
       Inl e \<Rightarrow> Inl e
     | Inr m' \<Rightarrow> for_each step rest m')"

definition extract_statement_metadata :: "string \<Rightarrow> py_error + statement_metadata" where
  "extract_statement_metadata text =
     (let lines = lines_of text
      in for_each (metadata_step lines) (enumerate 0 lines)
           \<lparr>statement_date = None, period_from = None, period_to = None,
            opening_balance = None, closing_balance = None\<rparr>)"

definition extract_statement_metadata_year :: "string \<Rightarrow> py_error + statement_metadata_year" where
  "extract_statement_metadata_year text =
     (let lines = lines_of text
      in for_each (metadata_step_year lines) (enumerate 0 lines)
           \<lparr>statement_date = None, period_from = None, period_to = None,
            opening_balance = None, closing_balance = None, year = None\<rparr>)"

section \<open>Notions used to state the properties\<close>

text \<open>A transaction with both dates passed through the resolver.\<close>

definition resolve_dates :: "string option \<Rightarrow> string option \<Rightarrow> transaction \<Rightarrow> transaction" where
  "resolve_dates pf pt t =
     t\<lparr>booking_date := convert_mm_dd_to_full_date (booking_date t) pf pt,
       value_date := convert_mm_dd_to_full_date (value_date t) pf pt\<rparr>"


text \<open>
  What one block contributes: its date pair, the trimmed join of the body lines that are
  neither blank nor money tokens, and the trimmed last money token of the body; nothing
  when either is missing.
\<close>

definition block_result :: "string \<Rightarrow> string \<Rightarrow> string list \<Rightarrow> transaction list" where
  "block_result bd vd body =
     (let description = strip (join '' '' (filter (\<lambda>l. \<not> is_money l \<and> l \<noteq> []) body));
          amounts = filter is_money body
      in if description \<noteq> [] \<and> amounts \<noteq> []
         then [\<lparr>booking_date = bd, value_date = vd, description = description,
                 amount = strip (last amounts)\<rparr>]
         else [])"

text \<open>A date \<^verbatim>\<open>DD.MM.YYYY\<close> rewritten as \<^verbatim>\<open>YYYY-MM-DD\<close>.\<close>

definition dotted_to_iso :: "string \<Rightarrow> string" where
  "dotted_to_iso g = drop 6 g @ ''-'' @ take 2 (drop 3 g) @ ''-'' @ take 2 g"

text \<open>The phrase that starts the search for the opening balance.\<close>

definition has_previous_balance :: "string \<Rightarrow> bool" where
  "has_previous_balance line = contains (lower line) ''previous balance''"

section \<open>Properties of the date resolver\<close>

lemma digit_facts:
  assumes "is_digit a"
  shows "digit_val a < 10" "digit_char (digit_val a) = a" "\<not> is_space a"
    "a \<noteq> CHR ''-''" "a \<noteq> CHR ''+''" "a \<noteq> CHR ''/''" "a \<noteq> CHR ''_''" "a \<noteq> CHR ''.''"
    "\<not> is_int_space a"
  using assms
  by (auto simp: is_digit_def digit_val_def digit_char_def is_space_def is_int_space_def)

lemma dropWhile_hd_id: "xs \<noteq> [] \<Longrightarrow> \<not> P (hd xs) \<Longrightarrow> dropWhile P xs = xs"
  by (cases xs) auto


lemma strip_id:
  assumes "s = [] \<or> (\<not> is_space (hd s) \<and> \<not> is_space (last s))"
  shows "strip s = s"
proof (cases s)
  case Nil then show ?thesis by (simp add: strip_def)
next
  case (Cons x xs)
  then have ne: "s \<noteq> []" by simp
  with assms have h: "\<not> is_space (hd s)" and l: "\<not> is_space (last s)" by auto
  from ne h have "dropWhile is_space s = s" by (rule dropWhile_hd_id)
  moreover from l ne have "dropWhile is_space (rev s) = rev s"
    by (intro dropWhile_hd_id) (simp_all add: hd_rev)
  ultimately show ?thesis by (simp add: strip_def)
qed

lemma int_strip_id:
  assumes "s \<noteq> []" and "\<not> is_int_space (hd s)" and "\<not> is_int_space (last s)"
  shows "int_strip s = s"
proof -
  have "dropWhile is_int_space s = s" using assms(1,2) by (rule dropWhile_hd_id)
  moreover have "dropWhile is_int_space (rev s) = rev s"
    using assms(1,3) by (intro dropWhile_hd_id) (simp_all add: hd_rev)
  ultimately show ?thesis by (simp add: int_strip_def)
qed



lemma split_two_digit_token:
  assumes "is_digit a" "is_digit b" "is_digit c" "is_digit d"
  shows "split_on CHR ''/'' [a, b, CHR ''/'', c, d] = [[a, b], [c, d]]"
  using assms by (simp add: digit_facts)

lemma convert_try_token_fail:
  "\<exists>x \<in> set (split_on CHR ''/'' mm_dd). py_int x = None \<Longrightarrow> convert_try mm_dd a b = None"
  by (auto simp: convert_try_def split: list.splits option.splits)

lemma parse_period_fail:
  "\<exists>x \<in> set (split_on CHR ''-'' p). py_int x = None \<Longrightarrow> parse_period p = None"
  by (auto simp: parse_period_def split: list.splits option.splits)

lemma convert_try_period_fail:
  "parse_period a = None \<or> parse_period b = None \<Longrightarrow> convert_try mm_dd a b = None"
  by (auto simp: convert_try_def split: list.splits option.splits)

text \<open>
  Claim C3.  When the token splits into a month and a day that parse, and both period
  bounds parse into year, month and day, the resolved year is the single year of the
  period if both bounds share it; otherwise it is the year of the first bound when the
  token's month is at least the month of the first bound, and the year of the second bound
  when it is smaller.  In particular 12/20 in the period 2020-12-15 to 2021-01-14 resolves
  to 2020-12-20 and 01/05 resolves to 2021-01-05.
\<close>

theorem resolve_year_policy:
  "(split_on CHR ''/'' mm_dd = [ms, ds] \<and> py_int ms = Some month \<and> py_int ds = Some day \<and>
    parse_period p_from = Some (from_year, from_month, from_day) \<and>
    parse_period p_to = Some (to_year, to_month, to_day) \<longrightarrow>
    convert_mm_dd_to_full_date mm_dd (Some p_from) (Some p_to) =
      show_int (if from_year = to_year then from_year
                else if month \<ge> from_month then from_year else to_year)
        @ ''-'' @ fmt02d month @ ''-'' @ fmt02d day) \<and>
   convert_mm_dd_to_full_date ''12/20'' (Some ''2020-12-15'') (Some ''2021-01-14'') = ''2020-12-20'' \<and>
   convert_mm_dd_to_full_date ''01/05'' (Some ''2020-12-15'') (Some ''2021-01-14'') = ''2021-01-05''"
proof (intro conjI impI)
  assume h: "split_on CHR ''/'' mm_dd = [ms, ds] \<and> py_int ms = Some month \<and> py_int ds = Some day \<and>
    parse_period p_from = Some (from_year, from_month, from_day) \<and>
    parse_period p_to = Some (to_year, to_month, to_day)"
  then have "mm_dd \<noteq> []" "p_from \<noteq> []" "p_to \<noteq> []"
    by (auto simp: parse_period_def)
  with h show "convert_mm_dd_to_full_date mm_dd (Some p_from) (Some p_to) =
      show_int (if from_year = to_year then from_year
                else if month \<ge> from_month then from_year else to_year)
        @ ''-'' @ fmt02d month @ ''-'' @ fmt02d day"
    by (simp add: convert_try_def)
next
  show "convert_mm_dd_to_full_date ''12/20'' (Some ''2020-12-15'') (Some ''2021-01-14'') = ''2020-12-20''"
    by code_simp
next
  show "convert_mm_dd_to_full_date ''01/05'' (Some ''2020-12-15'') (Some ''2021-01-14'') = ''2021-01-05''"
    by code_simp
qed

text \<open>The policy at a period inside one year.\<close>

theorem resolve_year_policy_witness:
  "convert_mm_dd_to_full_date ''07/04'' (Some ''2019-06-30'') (Some ''2019-07-29'') = ''2019-07-04''"
proof -
  have "split_on CHR ''/'' ''07/04'' = [''07'', ''04''] \<and> py_int ''07'' = Some 7 \<and> py_int ''04'' = Some 4 \<and>
    parse_period ''2019-06-30'' = Some (2019, 6, 30) \<and>
    parse_period ''2019-07-29'' = Some (2019, 7, 29)"
    by code_simp
  moreover have "show_int (if (2019::int) = 2019 then 2019 else if (7::int) \<ge> 6 then 2019 else 2019)
        @ ''-'' @ fmt02d 7 @ ''-'' @ fmt02d 4 = ''2019-07-04''"
    by code_simp
  ultimately show ?thesis
    using resolve_year_policy [of "''07/04''" "''07''" "''04''" 7 4 "''2019-06-30''" 2019 6 30
        "''2019-07-29''" 2019 7 29]
    by simp
qed

lemma py_int_too_long:
  assumes "\<forall>c \<in> set ds. is_digit c" and "length ds > int_max_str_digits"
  shows "py_int ds = None"
proof -
  from assms(2) have ne: "ds \<noteq> []" by auto
  from assms(1) ne have "is_digit (hd ds)" "is_digit (last ds)" by simp_all
  then have "int_strip ds = ds" using ne by (intro int_strip_id) (simp_all add: digit_facts)
  moreover have "filter is_digit ds = ds" using assms(1) by simp
  moreover obtain c cs where "ds = c # cs" using ne by (cases ds) auto
  ultimately show ?thesis using assms
    by (simp add: py_int_def int_unsigned_def digit_facts)
qed

lemma convert_try_token_parts:
  "length (split_on CHR ''/'' mm_dd) \<noteq> 2 \<Longrightarrow> convert_try mm_dd a b = None"
  by (auto simp: convert_try_def split: list.splits)

lemma parse_period_parts:
  "length (split_on CHR ''-'' p) \<noteq> 3 \<Longrightarrow> parse_period p = None"
  by (auto simp: parse_period_def split: list.splits)

text \<open>
  Claim C7.  The resolver returns the token unchanged whenever a period bound is missing
  or empty, whenever the token does not split at the slash into two parts or one of them
  does not parse as a number, and whenever a period bound does not split at the hyphens
  into three parts or one of them does not parse as a number; 03/01 without a period
  stays 03/01.  A component parses exactly when \<^verbatim>\<open>int()\<close> accepts it: the separator
  \<^verbatim>\<open>0x1C\<close> before the token, or \<^verbatim>\<open>0x1F\<close> after a bound, is such a failure.  Every exception
  of the \<^verbatim>\<open>try\<close> block is the value \<open>None\<close> of \<^const>\<open>convert_try\<close>, which the resolver
  turns into the token, so nothing is raised.
\<close>

theorem resolve_degraded:
  "convert_mm_dd_to_full_date mm_dd None p_to = mm_dd \<and>
   convert_mm_dd_to_full_date mm_dd p_from None = mm_dd \<and>
   convert_mm_dd_to_full_date mm_dd (Some []) p_to = mm_dd \<and>
   convert_mm_dd_to_full_date mm_dd p_from (Some []) = mm_dd \<and>
   (length (split_on CHR ''/'' mm_dd) \<noteq> 2 \<longrightarrow>
      convert_mm_dd_to_full_date mm_dd p_from p_to = mm_dd) \<and>
   ((\<exists>x \<in> set (split_on CHR ''/'' mm_dd). py_int x = None) \<longrightarrow>
      convert_mm_dd_to_full_date mm_dd p_from p_to = mm_dd) \<and>
   ((\<exists>p \<in> set_option p_from \<union> set_option p_to.
       length (split_on CHR ''-'' p) \<noteq> 3 \<or>
       (\<exists>x \<in> set (split_on CHR ''-'' p). py_int x = None)) \<longrightarrow>
      convert_mm_dd_to_full_date mm_dd p_from p_to = mm_dd) \<and>
   convert_mm_dd_to_full_date ''03/01'' None None = ''03/01'' \<and>
   convert_mm_dd_to_full_date (CHR 0x1C # ''12/20'') (Some ''2020-12-15'') (Some ''2021-01-14'') =
     CHR 0x1C # ''12/20'' \<and>
   convert_mm_dd_to_full_date ''12/20'' (Some (''2020-12-15'' @ [CHR 0x1F])) (Some ''2021-01-14'') =
     ''12/20''"
proof (intro conjI impI)
  show "convert_mm_dd_to_full_date mm_dd p_from None = mm_dd"
    by (cases p_from) simp_all
  show "convert_mm_dd_to_full_date mm_dd (Some []) p_to = mm_dd"
    by (cases p_to) simp_all
  show "convert_mm_dd_to_full_date mm_dd p_from (Some []) = mm_dd"
    by (cases p_from) simp_all
  show "convert_mm_dd_to_full_date mm_dd None p_to = mm_dd" by simp
  show "convert_mm_dd_to_full_date ''03/01'' None None = ''03/01''" by simp
  show "convert_mm_dd_to_full_date (CHR 0x1C # ''12/20'') (Some ''2020-12-15'')
      (Some ''2021-01-14'') = CHR 0x1C # ''12/20''"
    by code_simp
  show "convert_mm_dd_to_full_date ''12/20'' (Some (''2020-12-15'' @ [CHR 0x1F]))
      (Some ''2021-01-14'') = ''12/20''"
    by code_simp
next
  assume "length (split_on CHR ''/'' mm_dd) \<noteq> 2"
  then have "convert_try mm_dd a b = None" for a b by (rule convert_try_token_parts)
  then show "convert_mm_dd_to_full_date mm_dd p_from p_to = mm_dd"
    by (cases p_from; cases p_to) simp_all
next
  assume "\<exists>x \<in> set (split_on CHR ''/'' mm_dd). py_int x = None"
  then have "convert_try mm_dd a b = None" for a b by (rule convert_try_token_fail)
  then show "convert_mm_dd_to_full_date mm_dd p_from p_to = mm_dd"
    by (cases p_from; cases p_to) simp_all
next
  assume "\<exists>p \<in> set_option p_from \<union> set_option p_to.
       length (split_on CHR ''-'' p) \<noteq> 3 \<or>
       (\<exists>x \<in> set (split_on CHR ''-'' p). py_int x = None)"
  then obtain p where p: "p \<in> set_option p_from \<union> set_option p_to"
    and "length (split_on CHR ''-'' p) \<noteq> 3 \<or> (\<exists>x \<in> set (split_on CHR ''-'' p). py_int x = None)"
    by blast
  then have "parse_period p = None"
    using parse_period_parts parse_period_fail by blast
  with p have "\<And>a b. p_from = Some a \<Longrightarrow> p_to = Some b \<Longrightarrow> convert_try mm_dd a b = None"
    by (intro convert_try_period_fail) auto
  then show "convert_mm_dd_to_full_date mm_dd p_from p_to = mm_dd"
    by (cases p_from; cases p_to) simp_all
qed

text \<open>
  A token with a letter, a period bound with a letter, a token with two slashes and a
  period bound with one hyphen.
\<close>

theorem resolve_degraded_witness:
  "convert_mm_dd_to_full_date ''3a/01'' (Some ''2020-12-15'') (Some ''2021-01-14'') = ''3a/01'' \<and>
   convert_mm_dd_to_full_date ''03/01'' (Some ''2020-1x-15'') (Some ''2021-01-14'') = ''03/01'' \<and>
   convert_mm_dd_to_full_date ''03/01/21'' (Some ''2020-12-15'') (Some ''2021-01-14'') = ''03/01/21'' \<and>
   convert_mm_dd_to_full_date ''03/01'' (Some ''2020-12-15'') (Some ''2021-01'') = ''03/01''"
proof -
  have a: "\<exists>x \<in> set (split_on CHR ''/'' ''3a/01''). py_int x = None" by code_simp
  have b: "\<exists>p \<in> set_option (Some ''2020-1x-15'') \<union> set_option (Some ''2021-01-14'').
       length (split_on CHR ''-'' p) \<noteq> 3 \<or>
       (\<exists>x \<in> set (split_on CHR ''-'' p). py_int x = None)" by code_simp
  have c: "length (split_on CHR ''/'' ''03/01/21'') \<noteq> 2" by code_simp
  have d: "\<exists>p \<in> set_option (Some ''2020-12-15'') \<union> set_option (Some ''2021-01'').
       length (split_on CHR ''-'' p) \<noteq> 3 \<or>
       (\<exists>x \<in> set (split_on CHR ''-'' p). py_int x = None)" by code_simp
  note t5 = conjunct2 [THEN conjunct2, THEN conjunct2, THEN conjunct2, THEN conjunct1, THEN mp]
  note t6 = conjunct2 [THEN conjunct2, THEN conjunct2, THEN conjunct2, THEN conjunct2,
      THEN conjunct1, THEN mp]
  note t7 = conjunct2 [THEN conjunct2, THEN conjunct2, THEN conjunct2, THEN conjunct2,
      THEN conjunct2, THEN conjunct1, THEN mp]
  have "convert_mm_dd_to_full_date ''3a/01'' (Some ''2020-12-15'') (Some ''2021-01-14'') = ''3a/01''"
    using resolve_degraded [THEN t6, OF a] .
  moreover
  have "convert_mm_dd_to_full_date ''03/01'' (Some ''2020-1x-15'') (Some ''2021-01-14'') = ''03/01''"
    using resolve_degraded [THEN t7, OF b] .
  moreover
  have "convert_mm_dd_to_full_date ''03/01/21'' (Some ''2020-12-15'') (Some ''2021-01-14'') =
      ''03/01/21''"
    using resolve_degraded [THEN t5, OF c] .
  moreover
  have "convert_mm_dd_to_full_date ''03/01'' (Some ''2020-12-15'') (Some ''2021-01'') = ''03/01''"
    using resolve_degraded [THEN t7, OF d] .
  ultimately show ?thesis by (intro conjI)
qed







section \<open>Properties of the transaction parser\<close>

lemma skip_blank_total: "\<exists>k. skip_blank lines i = Inr k"
proof (induction lines i rule: skip_blank.induct)
  case (1 lines i)
  show ?case
    apply (subst skip_blank.simps)
    using 1 by (auto simp: nth_e_def)
qed

lemma collect_body_total: "\<exists>r. collect_body lines i ps a = Inr r"
proof (induction lines i ps a rule: collect_body.induct)
  case (1 lines i ps a)
  show ?case
    apply (subst collect_body.simps)
    using 1 by (auto simp: nth_e_def)
qed

lemma extract_loop_total: "\<exists>r. extract_loop lines i ts = Inr r"
proof (induction lines i ts rule: extract_loop.induct)
  case (1 lines i ts)
  obtain i1 where i1: "skip_blank lines (i + 1) = Inr i1"
    using skip_blank_total by blast
  obtain i2 ps a where cb: "collect_body lines (i1 + 1) [] None = Inr (i2, ps, a)"
    using collect_body_total by (metis prod_cases3)
  show ?case
    apply (subst extract_loop.simps)
    using 1 i1 cb by (auto simp: nth_e_def Let_def)
qed

lemma extract_loop_no_dates:
  assumes "\<forall>l \<in> set lines. \<not> is_date l"
  shows "extract_loop lines i ts = Inr ts"
  using assms
proof (induction "length lines - i" arbitrary: i)
  case 0
  then show ?case by (subst extract_loop.simps) simp
next
  case (Suc n)
  then have lt: "i < length lines" by simp
  then have nd: "\<not> is_date (lines ! i)" using Suc.prems by simp
  have "extract_loop lines (i + 1) ts = Inr ts"
    using Suc by (intro Suc.hyps) auto
  then show ?case using lt nd
    by (subst extract_loop.simps) (simp add: nth_e_def)
qed

lemma resolve_dates_record:
  "resolve_dates pf pt \<lparr>booking_date = b, value_date = v, description = d, amount = a\<rparr> =
     \<lparr>booking_date = convert_mm_dd_to_full_date b pf pt,
      value_date = convert_mm_dd_to_full_date v pf pt, description = d, amount = a\<rparr>"
  by (simp add: resolve_dates_def)

lemma extract_loop_period_eq:
  "extract_loop_period pf pt lines i (map (resolve_dates pf pt) ts) =
     (case extract_loop lines i ts of
        Inl e \<Rightarrow> Inl e
      | Inr r \<Rightarrow> Inr (map (resolve_dates pf pt) r))"
proof (induction lines i ts rule: extract_loop.induct)
  case (1 lines i ts)
  show ?case
    apply (subst extract_loop_period.simps, subst extract_loop.simps)
    using 1 by (auto split: sum.splits simp: Let_def resolve_dates_record nth_e_def)
qed


lemma last_dropWhile: "dropWhile P xs \<noteq> [] \<Longrightarrow> last (dropWhile P xs) = last xs"
  by (metis last_appendR takeWhile_dropWhile_id)

lemma strip_ends:
  "strip s = [] \<or> (\<not> is_space (hd (strip s)) \<and> \<not> is_space (last (strip s)))"
proof (cases "strip s = []")
  case True
  then show ?thesis by simp
next
  case False
  define t where "t = dropWhile is_space s"
  define u where "u = dropWhile is_space (rev t)"
  have s: "strip s = rev u" by (simp add: strip_def t_def u_def)
  with False have un: "u \<noteq> []" by simp
  then have tn: "t \<noteq> []" by (auto simp: u_def)
  have "\<not> is_space (hd u)" using un unfolding u_def by (rule hd_dropWhile)
  then have a: "\<not> is_space (last (strip s))" using un by (simp add: s last_rev)
  have "last u = last (rev t)" using un unfolding u_def by (rule last_dropWhile)
  then have "last u = hd t" using tn by (simp add: last_rev)
  moreover have "\<not> is_space (hd t)" using tn unfolding t_def by (rule hd_dropWhile)
  ultimately have "\<not> is_space (hd (strip s))" using un by (simp add: s hd_rev)
  with a show ?thesis by simp
qed

lemma strip_strip: "strip (strip s) = strip s"
  by (rule strip_id) (rule strip_ends)

lemma lines_of_stripped: "l \<in> set (lines_of text) \<Longrightarrow> strip l = l"
  by (auto simp: lines_of_def strip_strip)

lemma strip_empty_iff: "strip s = [] \<longleftrightarrow> (\<forall>c \<in> set s. is_space c)"
proof
  assume "strip s = []"
  then have "dropWhile is_space (rev (dropWhile is_space s)) = []" by (simp add: strip_def)
  then have "\<forall>c \<in> set (dropWhile is_space s). is_space c"
    by (simp add: dropWhile_eq_Nil_conv)
  then have "dropWhile is_space s = []"
    by (metis hd_dropWhile hd_in_set)
  then show "\<forall>c \<in> set s. is_space c" by (simp add: dropWhile_eq_Nil_conv)
next
  assume "\<forall>c \<in> set s. is_space c"
  then have d: "dropWhile is_space s = []" by (simp add: dropWhile_eq_Nil_conv)
  show "strip s = []" unfolding strip_def d by simp
qed

lemma money_tail_dot: "money_tail s \<Longrightarrow> CHR ''.'' \<in> set s"
  by (auto simp: money_tail_def split: list.splits)

lemma set_drop_sign: "set (drop_sign s) \<subseteq> set s"
  by (auto simp: drop_sign_def split: list.splits if_splits)

lemma is_money_dot: "is_money s \<Longrightarrow> CHR ''.'' \<in> set s"
proof -
  assume "is_money s"
  then have "CHR ''.'' \<in> set (dropWhile is_money_char (dropWhile is_space (drop_sign s)))"
    by (auto simp: is_money_def Let_def dest: money_tail_dot)
  then have "CHR ''.'' \<in> set (drop_sign s)"
    by (blast dest: set_dropWhileD)
  then show ?thesis using set_drop_sign by blast
qed

lemma strip_money_nonempty: "is_money s \<Longrightarrow> strip s \<noteq> []"
proof -
  assume "is_money s"
  then have "CHR ''.'' \<in> set s" by (rule is_money_dot)
  moreover have "\<not> is_space CHR ''.''" by (simp add: is_space_def)
  ultimately show ?thesis unfolding strip_empty_iff by blast
qed



lemma skip_blank_run:
  assumes "\<forall>l \<in> set blanks. l = []" and "rest = [] \<or> hd rest \<noteq> []"
  shows "skip_blank (pre @ blanks @ rest) (length pre) = Inr (length pre + length blanks)"
  using assms
proof (induction blanks arbitrary: pre)
  case Nil
  show ?case using Nil.prems(2)
    by (subst skip_blank.simps) (cases rest; simp add: nth_e_def nth_append)
next
  case (Cons b bs)
  have "skip_blank ((pre @ [b]) @ bs @ rest) (length (pre @ [b])) =
          Inr (length (pre @ [b]) + length bs)"
    using Cons.prems by (intro Cons.IH) auto
  then show ?case using Cons.prems(1)
    by (subst skip_blank.simps) (simp add: nth_e_def nth_append)
qed

lemma collect_body_run:
  assumes "\<forall>l \<in> set body. \<not> is_date l \<and> l \<notin> set markers"
    and "rest = [] \<or> is_date (hd rest) \<or> hd rest \<in> set markers"
  shows "collect_body (pre @ body @ rest) (length pre) ps a =
           Inr (length pre + length body,
                ps @ filter (\<lambda>l. \<not> is_money l \<and> l \<noteq> []) body,
                if filter is_money body = [] then a
                else Some (strip (last (filter is_money body))))"
  using assms
proof (induction body arbitrary: pre ps a)
  case Nil
  show ?case using Nil.prems(2)
    by (subst collect_body.simps) (cases rest; auto simp: nth_e_def nth_append)
next
  case (Cons l body)
  have ih: "collect_body ((pre @ [l]) @ body @ rest) (length (pre @ [l])) ps' a' =
           Inr (length (pre @ [l]) + length body,
                ps' @ filter (\<lambda>l. \<not> is_money l \<and> l \<noteq> []) body,
                if filter is_money body = [] then a'
                else Some (strip (last (filter is_money body))))" for ps' a'
    using Cons.prems by (intro Cons.IH) auto
  have l: "\<not> is_date l" "l \<notin> set markers" using Cons.prems(1) by auto
  show ?case
  proof (cases "l = []")
    case True
    have "\<not> is_money []" by (simp add: is_money_def drop_sign_def)
    then show ?thesis using l ih unfolding True
      by (subst collect_body.simps) (simp add: nth_e_def nth_append)
  next
    case False
    then show ?thesis using l ih
      by (subst collect_body.simps) (simp add: nth_e_def nth_append)
  qed
qed

lemma is_date_nonempty: "is_date s \<Longrightarrow> s \<noteq> []"
  by (auto simp: is_date_def)

lemma block_step:
  assumes lines: "lines = pre @ [bd] @ blanks @ [vd] @ body @ rest"
    and bd: "is_date bd" and vd: "is_date vd" and blanks: "\<forall>l \<in> set blanks. l = []"
    and body: "\<forall>l \<in> set body. \<not> is_date l \<and> l \<notin> set markers"
    and rest: "rest = [] \<or> is_date (hd rest) \<or> hd rest \<in> set markers"
  shows "extract_loop lines (length pre) ts =
           extract_loop lines (length pre + length blanks + length body + 2)
             (ts @ block_result bd vd body)"
proof -
  let ?i1 = "length pre + 1 + length blanks"
  have sk: "skip_blank lines (length pre + 1) = Inr ?i1"
    using skip_blank_run [of blanks "vd # body @ rest" "pre @ [bd]"] blanks
      is_date_nonempty [OF vd]
    by (simp add: lines)
  have cb: "collect_body lines (?i1 + 1) [] None =
      Inr (?i1 + 1 + length body, filter (\<lambda>l. \<not> is_money l \<and> l \<noteq> []) body,
           if filter is_money body = [] then None
           else Some (strip (last (filter is_money body))))"
    using collect_body_run [OF body rest, of "pre @ [bd] @ blanks @ [vd]" "[]" None]
    by (simp add: lines)
  have n0: "nth_e lines (length pre) = Inr bd" by (simp add: lines nth_e_def)
  have n1: "nth_e lines ?i1 = Inr vd" "?i1 < length lines"
    by (simp_all add: lines nth_e_def nth_append)
  have mn: "strip (last (filter is_money body)) \<noteq> []" if "filter is_money body \<noteq> []"
  proof -
    from last_in_set [OF that] have "is_money (last (filter is_money body))" by simp
    then show ?thesis by (rule strip_money_nonempty)
  qed
  have eq: "length pre + 1 + length blanks + 1 + length body =
      length pre + length blanks + length body + 2" by simp
  show ?thesis
    apply (subst extract_loop.simps)
    using n0 n1 bd vd sk cb mn
    by (auto simp: lines Let_def block_result_def eq)
qed


lemma block_step_period:
  assumes "lines = pre @ [bd] @ blanks @ [vd] @ body @ rest"
    and "is_date bd" and "is_date vd" and "\<forall>l \<in> set blanks. l = []"
    and "\<forall>l \<in> set body. \<not> is_date l \<and> l \<notin> set markers"
    and "rest = [] \<or> is_date (hd rest) \<or> hd rest \<in> set markers"
  shows "extract_loop_period pf pt lines (length pre) ts =
           extract_loop_period pf pt lines (length pre + length blanks + length body + 2)
             (ts @ map (resolve_dates pf pt) (block_result bd vd body))"
proof -
  let ?i1 = "length pre + 1 + length blanks"
  note lines = assms(1)
  have sk: "skip_blank lines (length pre + 1) = Inr ?i1"
    using skip_blank_run [of blanks "vd # body @ rest" "pre @ [bd]"] assms(4)
      is_date_nonempty [OF assms(3)]
    by (simp add: lines)
  have cb: "collect_body lines (?i1 + 1) [] None =
      Inr (?i1 + 1 + length body, filter (\<lambda>l. \<not> is_money l \<and> l \<noteq> []) body,
           if filter is_money body = [] then None
           else Some (strip (last (filter is_money body))))"
    using collect_body_run [OF assms(5,6), of "pre @ [bd] @ blanks @ [vd]" "[]" None]
    by (simp add: lines)
  have n0: "nth_e lines (length pre) = Inr bd" by (simp add: lines nth_e_def)
  have n1: "nth_e lines ?i1 = Inr vd" "?i1 < length lines"
    by (simp_all add: lines nth_e_def nth_append)
  have mn: "strip (last (filter is_money body)) \<noteq> []" if "filter is_money body \<noteq> []"
  proof -
    from last_in_set [OF that] have "is_money (last (filter is_money body))" by simp
    then show ?thesis by (rule strip_money_nonempty)
  qed
  have eq: "length pre + 1 + length blanks + 1 + length body =
      length pre + length blanks + length body + 2" by simp
  show ?thesis
    apply (subst extract_loop_period.simps)
    using n0 n1 assms(2,3) sk cb mn
    by (auto simp: lines Let_def block_result_def eq resolve_dates_record)
qed

lemma resolve_dates_none: "map (resolve_dates None None) ts = ts"
  by (induction ts) (simp_all add: resolve_dates_def)


lemma extract_transactions_period_loop:
  "extract_transactions_period text pf pt = Inr ts \<Longrightarrow>
     \<exists>r. extract_loop (lines_of text) 0 [] = Inr r \<and> ts = map (resolve_dates pf pt) r"
  using extract_loop_period_eq [of pf pt "lines_of text" 0 "[]"]
  by (auto simp: extract_transactions_period_def split: sum.splits)




lemma extract_loop_prefix:
  assumes "extract_loop lines i ts = Inr res"
  shows "\<exists>r. res = ts @ r"
  using assms
proof (induction lines i ts rule: extract_loop.induct)
  case (1 lines i ts)
  from "1.prems" show ?case
    apply (subst (asm) extract_loop.simps)
    using "1.IH"
    by (fastforce simp: nth_e_def Let_def split: if_splits sum.splits)
qed

lemma extract_loop_seek:
  assumes "\<forall>l \<in> set skipped. \<not> is_date l"
  shows "extract_loop (pre @ skipped @ rest) (length pre) ts =
         extract_loop (pre @ skipped @ rest) (length pre + length skipped) ts"
  using assms
proof (induction skipped arbitrary: pre)
  case Nil
  show ?case by simp
next
  case (Cons l skipped)
  have "extract_loop ((pre @ [l]) @ skipped @ rest) (length (pre @ [l])) ts =
        extract_loop ((pre @ [l]) @ skipped @ rest) (length (pre @ [l]) + length skipped) ts"
    using Cons.prems by (intro Cons.IH) simp
  moreover have "extract_loop (pre @ (l # skipped) @ rest) (length pre) ts =
        extract_loop (pre @ (l # skipped) @ rest) (length pre + 1) ts"
    using Cons.prems by (subst extract_loop.simps) (simp add: nth_e_def)
  ultimately show ?case by simp
qed

lemma block_emitted:
  assumes "lines = pre @ [bd] @ blanks @ [vd] @ body @ rest"
    and "is_date bd" and "is_date vd" and "\<forall>l \<in> set blanks. l = []"
    and "\<forall>l \<in> set body. \<not> is_date l \<and> l \<notin> set markers"
    and "rest = [] \<or> is_date (hd rest) \<or> hd rest \<in> set markers"
    and "strip (join '' '' (filter (\<lambda>l. \<not> is_money l \<and> l \<noteq> []) body)) \<noteq> []"
    and "filter is_money body \<noteq> []"
  shows "\<exists>r. extract_loop lines (length pre) ts =
      Inr (ts @ \<lparr>booking_date = bd, value_date = vd,
                  description = strip (join '' '' (filter (\<lambda>l. \<not> is_money l \<and> l \<noteq> []) body)),
                  amount = strip (last (filter is_money body))\<rparr> # r)"
proof -
  let ?tx = "\<lparr>booking_date = bd, value_date = vd,
                  description = strip (join '' '' (filter (\<lambda>l. \<not> is_money l \<and> l \<noteq> []) body)),
                  amount = strip (last (filter is_money body))\<rparr>"
  let ?k = "length pre + length blanks + length body + 2"
  have "block_result bd vd body = [?tx]"
    using assms(7,8) by (simp add: block_result_def Let_def)
  then have step: "extract_loop lines (length pre) ts = extract_loop lines ?k (ts @ [?tx])"
    using block_step [OF assms(1-6), of ts] by simp
  obtain res where res: "extract_loop lines ?k (ts @ [?tx]) = Inr res"
    using extract_loop_total by blast
  then obtain r where "res = (ts @ [?tx]) @ r" using extract_loop_prefix by blast
  with step res show ?thesis by simp
qed

text \<open>
  Claim C2, as amended.  Take a block made of a booking date, blank lines, a value date and
  a body that runs to the next date line, marker line or the end of the text, whose body
  has a money token and a description that is not empty.  Whenever the loop stands at
  the booking date, the list it returns holds, right after the transactions collected
  so far, the transaction of this block: its amount is the trimmed LAST money token of
  the body (each money token overwrites the one before) and its description is the
  trimmed join of the body lines that are neither blank nor money tokens.  When no date
  line precedes the block in the text, this is the first transaction that both variants
  of \<^verbatim>\<open>extract_transactions\<close> return.
\<close>

theorem block_amount_is_last_money_line:
  "(lines = pre @ [bd] @ blanks @ [vd] @ body @ rest \<and>
    is_date bd \<and> is_date vd \<and> (\<forall>l \<in> set blanks. l = []) \<and>
    (\<forall>l \<in> set body. \<not> is_date l \<and> l \<notin> set markers) \<and>
    (rest = [] \<or> is_date (hd rest) \<or> hd rest \<in> set markers) \<and>
    strip (join '' '' (filter (\<lambda>l. \<not> is_money l \<and> l \<noteq> []) body)) \<noteq> [] \<and>
    filter is_money body \<noteq> [] \<longrightarrow>
    (\<exists>r. extract_loop lines (length pre) ts =
       Inr (ts @ \<lparr>booking_date = bd, value_date = vd,
                   description = strip (join '' '' (filter (\<lambda>l. \<not> is_money l \<and> l \<noteq> []) body)),
                   amount = strip (last (filter is_money body))\<rparr> # r))) \<and>
   (lines_of text = pre @ [bd] @ blanks @ [vd] @ body @ rest \<and>
    (\<forall>l \<in> set pre. \<not> is_date l) \<and>
    is_date bd \<and> is_date vd \<and> (\<forall>l \<in> set blanks. l = []) \<and>
    (\<forall>l \<in> set body. \<not> is_date l \<and> l \<notin> set markers) \<and>
    (rest = [] \<or> is_date (hd rest) \<or> hd rest \<in> set markers) \<and>
    strip (join '' '' (filter (\<lambda>l. \<not> is_money l \<and> l \<noteq> []) body)) \<noteq> [] \<and>
    filter is_money body \<noteq> [] \<longrightarrow>
    (\<exists>r. extract_transactions text =
       Inr (\<lparr>booking_date = bd, value_date = vd,
             description = strip (join '' '' (filter (\<lambda>l. \<not> is_money l \<and> l \<noteq> []) body)),
             amount = last (filter is_money body)\<rparr> # r)) \<and>
    (\<exists>r. extract_transactions_period text None None =
       Inr (\<lparr>booking_date = bd, value_date = vd,
             description = strip (join '' '' (filter (\<lambda>l. \<not> is_money l \<and> l \<noteq> []) body)),
             amount = last (filter is_money body)\<rparr> # r)) \<and>
    (\<forall>ts'. extract_transactions_period text p_from p_to = Inr ts' \<longrightarrow>
       (\<exists>r. ts' =
          \<lparr>booking_date = convert_mm_dd_to_full_date bd p_from p_to,
            value_date = convert_mm_dd_to_full_date vd p_from p_to,
            description = strip (join '' '' (filter (\<lambda>l. \<not> is_money l \<and> l \<noteq> []) body)),
            amount = last (filter is_money body)\<rparr> # r)))"
proof (intro conjI impI)
  assume h: "lines = pre @ [bd] @ blanks @ [vd] @ body @ rest \<and>
    is_date bd \<and> is_date vd \<and> (\<forall>l \<in> set blanks. l = []) \<and>
    (\<forall>l \<in> set body. \<not> is_date l \<and> l \<notin> set markers) \<and>
    (rest = [] \<or> is_date (hd rest) \<or> hd rest \<in> set markers) \<and>
    strip (join '' '' (filter (\<lambda>l. \<not> is_money l \<and> l \<noteq> []) body)) \<noteq> [] \<and>
    filter is_money body \<noteq> []"
  show "\<exists>r. extract_loop lines (length pre) ts =
       Inr (ts @ \<lparr>booking_date = bd, value_date = vd,
                   description = strip (join '' '' (filter (\<lambda>l. \<not> is_money l \<and> l \<noteq> []) body)),
                   amount = strip (last (filter is_money body))\<rparr> # r)"
    by (rule block_emitted) (use h in blast)+
next
  assume h: "lines_of text = pre @ [bd] @ blanks @ [vd] @ body @ rest \<and>
    (\<forall>l \<in> set pre. \<not> is_date l) \<and>
    is_date bd \<and> is_date vd \<and> (\<forall>l \<in> set blanks. l = []) \<and>
    (\<forall>l \<in> set body. \<not> is_date l \<and> l \<notin> set markers) \<and>
    (rest = [] \<or> is_date (hd rest) \<or> hd rest \<in> set markers) \<and>
    strip (join '' '' (filter (\<lambda>l. \<not> is_money l \<and> l \<noteq> []) body)) \<noteq> [] \<and>
    filter is_money body \<noteq> []"
  let ?tx = "\<lparr>booking_date = bd, value_date = vd,
             description = strip (join '' '' (filter (\<lambda>l. \<not> is_money l \<and> l \<noteq> []) body)),
             amount = last (filter is_money body)\<rparr>"
  from h have lines: "lines_of text = pre @ [bd] @ blanks @ [vd] @ body @ rest" by blast
  from h have nm: "filter is_money body \<noteq> []" by blast
  have "last (filter is_money body) \<in> set (filter is_money body)" using nm by (rule last_in_set)
  then have "last (filter is_money body) \<in> set (lines_of text)" by (simp add: lines)
  then have am: "strip (last (filter is_money body)) = last (filter is_money body)"
    by (rule lines_of_stripped)
  have "\<exists>r. extract_loop (lines_of text) (length pre) [] =
      Inr ([] @ \<lparr>booking_date = bd, value_date = vd,
             description = strip (join '' '' (filter (\<lambda>l. \<not> is_money l \<and> l \<noteq> []) body)),
             amount = strip (last (filter is_money body))\<rparr> # r)"
    by (rule block_emitted) (use h in blast)+
  then have "\<exists>r. extract_loop (lines_of text) (length pre) [] = Inr ([] @ ?tx # r)"
    unfolding am .
  moreover have "extract_loop (lines_of text) 0 [] = extract_loop (lines_of text) (length pre) []"
    unfolding lines
    using extract_loop_seek [of pre "[]" "[bd] @ blanks @ [vd] @ body @ rest" "[]"] h by simp
  ultimately obtain r where r: "extract_loop (lines_of text) 0 [] = Inr (?tx # r)" by auto
  then show "\<exists>r. extract_transactions text = Inr (?tx # r)"
    by (auto simp: extract_transactions_def)
  show "\<exists>r. extract_transactions_period text None None = Inr (?tx # r)"
    using extract_loop_period_eq [of None None "lines_of text" 0 "[]"] r
    by (simp add: extract_transactions_period_def resolve_dates_none resolve_dates_record)
  show "\<forall>ts'. extract_transactions_period text p_from p_to = Inr ts' \<longrightarrow>
       (\<exists>r. ts' =
          \<lparr>booking_date = convert_mm_dd_to_full_date bd p_from p_to,
            value_date = convert_mm_dd_to_full_date vd p_from p_to,
            description = strip (join '' '' (filter (\<lambda>l. \<not> is_money l \<and> l \<noteq> []) body)),
            amount = last (filter is_money body)\<rparr> # r)"
  proof (intro allI impI)
    fix ts' assume "extract_transactions_period text p_from p_to = Inr ts'"
    from extract_transactions_period_loop [OF this] r
    have "ts' = map (resolve_dates p_from p_to) (?tx # r)" by simp
    then show "\<exists>r. ts' =
          \<lparr>booking_date = convert_mm_dd_to_full_date bd p_from p_to,
            value_date = convert_mm_dd_to_full_date vd p_from p_to,
            description = strip (join '' '' (filter (\<lambda>l. \<not> is_money l \<and> l \<noteq> []) body)),
            amount = last (filter is_money body)\<rparr> # r"
      by (simp add: resolve_dates_record)
  qed
qed

text \<open>
  A text whose first block has two money tokens and two text lines, followed by a date
  line: the first transaction returned has the second token as its amount.
\<close>

theorem block_amount_witness:
  "\<exists>r. extract_transactions
      ''Page 1\<newline>01/02\<newline>\<newline>01/02\<newline>Shop\<newline>- 1.00\<newline>more\<newline>- 2.00\<newline>03/04'' =
     Inr (\<lparr>booking_date = ''01/02'', value_date = ''01/02'', description = ''Shop more'',
           amount = ''- 2.00''\<rparr> # r)"
proof -
  have f: "filter (\<lambda>l. \<not> is_money l \<and> l \<noteq> []) [''Shop'', ''- 1.00'', ''more'', ''- 2.00''] =
      [''Shop'', ''more'']"
    "filter is_money [''Shop'', ''- 1.00'', ''more'', ''- 2.00''] = [''- 1.00'', ''- 2.00'']"
    "strip (join '' '' [''Shop'', ''more'']) = ''Shop more''"
    by code_simp+
  have h: "lines_of ''Page 1\<newline>01/02\<newline>\<newline>01/02\<newline>Shop\<newline>- 1.00\<newline>more\<newline>- 2.00\<newline>03/04'' =
      [''Page 1''] @ [''01/02''] @ [[]] @ [''01/02''] @ [''Shop'', ''- 1.00'', ''more'', ''- 2.00''] @
        [''03/04''] \<and>
    (\<forall>l \<in> set [''Page 1'']. \<not> is_date l) \<and>
    is_date ''01/02'' \<and> is_date ''01/02'' \<and> (\<forall>l \<in> set [[]::string]. l = []) \<and>
    (\<forall>l \<in> set [''Shop'', ''- 1.00'', ''more'', ''- 2.00'']. \<not> is_date l \<and> l \<notin> set markers) \<and>
    ([''03/04''] = [] \<or> is_date (hd [''03/04'']) \<or> hd [''03/04''] \<in> set markers) \<and>
    strip (join '' '' (filter (\<lambda>l. \<not> is_money l \<and> l \<noteq> [])
      [''Shop'', ''- 1.00'', ''more'', ''- 2.00''])) \<noteq> [] \<and>
    filter is_money [''Shop'', ''- 1.00'', ''more'', ''- 2.00''] \<noteq> []"
    by code_simp
  have l: "last [''- 1.00'', ''- 2.00''] = ''- 2.00''" by simp
  show ?thesis
    using block_amount_is_last_money_line [THEN conjunct2, THEN mp, OF h, THEN conjunct1,
        unfolded f l] .
qed

text \<open>
  The claim as stated, that the first money token of the body is the amount, fails: with
  the body lines \<^verbatim>\<open>Shop\<close>, \<^verbatim>\<open>- 1.00\<close>, \<^verbatim>\<open>- 2.00\<close> the amount is the second token.
\<close>

theorem first_money_line_counterexample:
  "extract_transactions ''01/02\<newline>01/02\<newline>Shop\<newline>- 1.00\<newline>- 2.00'' =
     Inr [\<lparr>booking_date = ''01/02'', value_date = ''01/02'', description = ''Shop'',
           amount = ''- 2.00''\<rparr>]"
  by code_simp

text \<open>
  Claim C6.  When no trimmed line of the text matches the date pattern, both variants of
  \<^verbatim>\<open>extract_transactions\<close> return the empty list (the variant with a period whenever it
  returns).
\<close>

theorem no_date_line_no_transactions:
  "(\<forall>l \<in> set (lines_of text). \<not> is_date l) \<longrightarrow>
     extract_transactions text = Inr [] \<and>
     extract_transactions_period text None None = Inr [] \<and>
     (\<forall>ts. extract_transactions_period text p_from p_to = Inr ts \<longrightarrow> ts = [])"
proof
  assume h: "\<forall>l \<in> set (lines_of text). \<not> is_date l"
  then have e: "extract_loop (lines_of text) 0 [] = Inr []" by (rule extract_loop_no_dates)
  have p: "extract_loop_period pf pt (lines_of text) 0 [] = Inr []" for pf pt
    using extract_loop_period_eq [of pf pt "lines_of text" 0 "[]"] e by simp
  show "extract_transactions text = Inr [] \<and>
     extract_transactions_period text None None = Inr [] \<and>
     (\<forall>ts. extract_transactions_period text p_from p_to = Inr ts \<longrightarrow> ts = [])"
    using e p by (auto simp: extract_transactions_def extract_transactions_period_def
        split: sum.splits)
qed

text \<open>A text whose last line lacks a digit of the date pattern.\<close>

theorem no_date_line_witness:
  "extract_transactions ''Card payment\<newline>- 45.00\<newline>12/1'' = Inr []"
proof -
  have "\<forall>l \<in> set (lines_of ''Card payment\<newline>- 45.00\<newline>12/1''). \<not> is_date l"
    by code_simp
  then show ?thesis
    using no_date_line_no_transactions [of "''Card payment\<newline>- 45.00\<newline>12/1''" None None]
    by blast
qed

text \<open>
  Claim C9.  Called without a period, the variant of \<^verbatim>\<open>src/_src\<close> returns exactly what
  the variant of \<^verbatim>\<open>src\<close> returns on the same text.
\<close>

theorem variants_agree_without_period:
  "extract_transactions_period text None None = extract_transactions text"
  using extract_loop_period_eq [of None None "lines_of text" 0 "[]"]
  by (simp add: extract_transactions_period_def extract_transactions_def resolve_dates_none
      split: sum.splits)

text \<open>The two variants on one block.\<close>

theorem variants_agree_witness:
  "extract_transactions_period ''12/16\<newline>12/16\<newline>Card payment\<newline>- 45.00'' None None =
     Inr [\<lparr>booking_date = ''12/16'', value_date = ''12/16'', description = ''Card payment'',
           amount = ''- 45.00''\<rparr>]"
proof -
  have e: "extract_transactions ''12/16\<newline>12/16\<newline>Card payment\<newline>- 45.00'' =
     Inr [\<lparr>booking_date = ''12/16'', value_date = ''12/16'', description = ''Card payment'',
           amount = ''- 45.00''\<rparr>]"
    by code_simp
  show ?thesis
    using variants_agree_without_period [of "''12/16\<newline>12/16\<newline>Card payment\<newline>- 45.00''"] e
    by simp
qed

section \<open>Properties of the metadata extractor\<close>

lemma take_date_iso:
  assumes "take_date s = Some (g, r)"
  shows "iso_date g = Inr (dotted_to_iso g)"
    and "nth_e (split_on CHR ''.'' g) 2 = Inr (drop 6 g)"
    and "length g = 10" and "\<forall>c \<in> set (drop 6 g). is_digit c"
proof -
  from assms obtain a b c d e f x h where g: "g = [a, b, CHR ''.'', c, d, CHR ''.'', e, f, x, h]"
    and dg: "is_digit a" "is_digit b" "is_digit c" "is_digit d" "is_digit e" "is_digit f"
      "is_digit x" "is_digit h"
    by (auto simp: take_date_def split: list.splits if_splits)
  have sp: "split_on CHR ''.'' g = [[a, b], [c, d], [e, f, x, h]]"
    using dg by (simp add: g digit_facts)
  show "iso_date g = Inr (dotted_to_iso g)"
    unfolding iso_date_def sp by (simp add: nth_e_def dotted_to_iso_def g)
  show "nth_e (split_on CHR ''.'' g) 2 = Inr (drop 6 g)"
    unfolding sp by (simp add: nth_e_def g)
  show "length g = 10" by (simp add: g)
  show "\<forall>c \<in> set (drop 6 g). is_digit c" using dg by (simp add: g)
qed

lemma match_period_at_dates:
  assumes "match_period_at s = Some (g1, g2)"
  shows "\<exists>s1 r1 s2 r2. take_date s1 = Some (g1, r1) \<and> take_date s2 = Some (g2, r2)"
  using assms by (auto simp: match_period_at_def split: option.splits) blast+

lemma period_search_dates:
  assumes "period_search s = Some (g1, g2)"
  shows "\<exists>s1 r1 s2 r2. take_date s1 = Some (g1, r1) \<and> take_date s2 = Some (g2, r2)"
  using assms
proof (induction s)
  case Nil
  then have "match_period_at [] = Some (g1, g2)" by simp
  then show ?case by (rule match_period_at_dates)
next
  case (Cons c s)
  show ?case
  proof (cases "match_period_at (c # s)")
    case None
    with Cons.prems have "period_search s = Some (g1, g2)" by simp
    then show ?thesis by (rule Cons.IH)
  next
    case (Some p)
    with Cons.prems have "match_period_at (c # s) = Some (g1, g2)" by simp
    then show ?thesis by (rule match_period_at_dates)
  qed
qed

lemma set_period_none: "period_search line = None \<Longrightarrow> set_period line m = Inr m"
  by (simp add: set_period_def)

lemma set_period_year_none: "period_search line = None \<Longrightarrow> set_period_year line m = Inr m"
  by (simp add: set_period_year_def)

lemma set_period_some:
  assumes "period_search line = Some (g1, g2)"
  shows "set_period line m =
     Inr (m\<lparr>period_from := Some (dotted_to_iso g1), period_to := Some (dotted_to_iso g2),
            statement_date := Some (dotted_to_iso g2)\<rparr>)"
proof -
  from period_search_dates [OF assms] obtain s1 r1 s2 r2
    where "take_date s1 = Some (g1, r1)" "take_date s2 = Some (g2, r2)" by blast
  then show ?thesis using assms by (simp add: set_period_def take_date_iso)
qed

lemma set_period_year_some:
  assumes "period_search line = Some (g1, g2)"
  shows "set_period_year line m =
     Inr (m\<lparr>period_from := Some (dotted_to_iso g1), period_to := Some (dotted_to_iso g2),
            statement_date := Some (dotted_to_iso g2), year := Some (drop 6 g2)\<rparr>)"
proof -
  from period_search_dates [OF assms] obtain s1 r1 s2 r2
    where "take_date s1 = Some (g1, r1)" "take_date s2 = Some (g2, r2)" by blast
  then show ?thesis using assms by (simp add: set_period_year_def take_date_iso)
qed

lemma scan_balance_none:
  assumes "\<forall>j \<in> set js. j < length lines \<and> \<not> is_money (lines ! j)"
  shows "scan_balance lines js = Inr None"
  using assms by (induction js) (simp_all add: nth_e_def balance_match_def)

lemma scan_balance_first:
  assumes "\<forall>k \<in> set js1. k < length lines \<and> \<not> is_money (lines ! k)"
    and "j < length lines" and "is_money (lines ! j)"
  shows "scan_balance lines (js1 @ j # js2) = Inr (Some (strip (money_group (lines ! j))))"
  using assms by (induction js1) (simp_all add: nth_e_def balance_match_def)

lemma scan_balance_total:
  assumes "\<forall>j \<in> set js. j < length lines"
  shows "\<exists>r. scan_balance lines js = Inr r"
  using assms by (induction js) (auto simp: nth_e_def split: option.splits)

lemma money_group_dot: "is_money s \<Longrightarrow> CHR ''.'' \<in> set (money_group s)"
proof -
  assume "is_money s"
  then have d: "CHR ''.'' \<in> set s" by (rule is_money_dot)
  show ?thesis
  proof (cases "s \<noteq> [] \<and> last s = CHR 0x0A")
    case True
    then have "s = butlast s @ [CHR 0x0A]" by (metis append_butlast_last_id)
    then have "set s = set (butlast s) \<union> {CHR 0x0A}" by (metis set_append list.set(1,2) Un_insert_right sup_bot.right_neutral)
    with d have "CHR ''.'' \<in> set (butlast s)" by auto
    with True show ?thesis by (simp add: money_group_def)
  next
    case False
    with d show ?thesis by (auto simp: money_group_def)
  qed
qed

lemma scan_balance_truthy:
  assumes "scan_balance lines js = Inr (Some b)"
  shows "b \<noteq> []"
  using assms
proof (induction js)
  case Nil
  then show ?case by simp
next
  case (Cons j js)
  have "strip (money_group l) \<noteq> []" if "is_money l" for l
  proof -
    have "CHR ''.'' \<in> set (money_group l)" using that by (rule money_group_dot)
    moreover have "\<not> is_space CHR ''.''" by (simp add: is_space_def)
    ultimately show ?thesis unfolding strip_empty_iff by blast
  qed
  with Cons show ?case
    by (auto simp: balance_match_def split: sum.splits if_splits)
qed

lemma for_each_append:
  "for_each step (xs @ ys) m =
     (case for_each step xs m of Inl e \<Rightarrow> Inl e | Inr m' \<Rightarrow> for_each step ys m')"
  by (induction xs arbitrary: m) (auto split: sum.splits)

lemma for_each_total:
  assumes "\<And>i l m. (i, l) \<in> set es \<Longrightarrow> \<exists>m'. step i l m = Inr m'"
  shows "\<exists>m'. for_each step es m = Inr m'"
  using assms
proof (induction es arbitrary: m)
  case Nil
  then show ?case by simp
next
  case (Cons x es)
  obtain i l where x: "x = (i, l)" by (cases x)
  from Cons.prems [of i l m] x obtain m1 where "step i l m = Inr m1" by auto
  moreover have "\<exists>m'. for_each step es m1 = Inr m'"
    by (rule Cons.IH) (simp add: Cons.prems)
  ultimately show ?case by (simp add: x)
qed

lemma for_each_invariant:
  assumes "for_each step es m = Inr m'" and "P m"
    and "\<And>i l a b. (i, l) \<in> set es \<Longrightarrow> step i l a = Inr b \<Longrightarrow> P a \<Longrightarrow> P b"
  shows "P m'"
  using assms
proof (induction es arbitrary: m)
  case Nil
  then show ?case by simp
next
  case (Cons x es)
  obtain i l where x: "x = (i, l)" by (cases x)
  from Cons.prems(1) obtain m1 where s: "step i l m = Inr m1" and r: "for_each step es m1 = Inr m'"
    by (auto simp: x split: sum.splits)
  have "P m1" using Cons.prems(3) [of i l m m1] s Cons.prems(2) by (simp add: x)
  then show ?case using r Cons.prems(3) by (intro Cons.IH [of m1]) auto
qed


lemma upt_min_bound: "\<forall>j \<in> set [a ..< min b (length lines)]. j < length lines"
  by simp

lemma metadata_step_total: "\<exists>m'. metadata_step lines i line m = Inr m'"
proof -
  obtain m1 where m1: "set_period line m = Inr m1"
    by (cases "period_search line") (auto simp: set_period_none set_period_some)
  obtain r1 where r1: "scan_balance lines [i ..< min (i + 5) (length lines)] = Inr r1"
    using scan_balance_total [OF upt_min_bound] by blast
  obtain r2 where r2: "scan_balance lines [i + 1 ..< min (i + 5) (length lines)] = Inr r2"
    using scan_balance_total [OF upt_min_bound] by blast
  show ?thesis
    unfolding metadata_step_def using m1 r1 r2 by (auto split: option.splits)
qed

lemma metadata_step_year_total: "\<exists>m'. metadata_step_year lines i line m = Inr m'"
proof -
  obtain m1 where m1: "set_period_year line m = Inr m1"
    by (cases "period_search line") (auto simp: set_period_year_none set_period_year_some)
  obtain r where r: "scan_balance lines [i + 1 ..< min (i + 25) (length lines)] = Inr r"
    using scan_balance_total [OF upt_min_bound] by blast
  show ?thesis
    unfolding metadata_step_year_def using m1 r by (auto split: option.splits)
qed

lemma metadata_step_period:
  assumes "metadata_step lines i line m = Inr m'"
  shows "period_search line = None \<Longrightarrow>
           period_from m' = period_from m \<and> period_to m' = period_to m \<and>
           statement_date m' = statement_date m"
    and "period_search line = Some (g1, g2) \<Longrightarrow>
           period_from m' = Some (dotted_to_iso g1) \<and> period_to m' = Some (dotted_to_iso g2) \<and>
           statement_date m' = Some (dotted_to_iso g2)"
  using assms
  by (auto simp: metadata_step_def set_period_none set_period_some
      split: sum.splits option.splits if_splits)

lemma metadata_step_year_period:
  assumes "metadata_step_year lines i line m = Inr m'"
  shows "period_search line = None \<Longrightarrow>
           period_from m' = period_from m \<and> period_to m' = period_to m \<and>
           statement_date m' = statement_date m \<and> year m' = year m"
    and "period_search line = Some (g1, g2) \<Longrightarrow>
           period_from m' = Some (dotted_to_iso g1) \<and> period_to m' = Some (dotted_to_iso g2) \<and>
           statement_date m' = Some (dotted_to_iso g2) \<and> year m' = Some (drop 6 g2)"
  using assms
  by (auto simp: metadata_step_year_def set_period_year_none set_period_year_some
      split: sum.splits option.splits if_splits)

lemma enumerate_split:
  "enumerate 0 (pre @ [l] @ post) =
     enumerate 0 pre @ [(length pre, l)] @ enumerate (Suc (length pre)) post"
  by (simp add: enumerate_append_eq)

lemma in_enumerate_set: "(i, l) \<in> set (enumerate n xs) \<Longrightarrow> l \<in> set xs"
  by (auto simp: in_set_enumerate_eq)

lemma last_period_line_v1:
  assumes "lines = pre @ [l] @ post" and "period_search l = Some (g1, g2)"
    and "\<forall>x \<in> set post. period_search x = None"
  shows "\<exists>m. for_each (metadata_step lines) (enumerate 0 lines) m0 = Inr m \<and>
           period_from m = Some (dotted_to_iso g1) \<and> period_to m = Some (dotted_to_iso g2) \<and>
           statement_date m = Some (dotted_to_iso g2)"
proof -
  obtain m1 where m1: "for_each (metadata_step lines) (enumerate 0 pre) m0 = Inr m1"
    using for_each_total [of _ "metadata_step lines"] metadata_step_total by blast
  obtain m2 where m2: "metadata_step lines (length pre) l m1 = Inr m2"
    using metadata_step_total by blast
  obtain m3 where m3: "for_each (metadata_step lines) (enumerate (Suc (length pre)) post) m2 = Inr m3"
    using for_each_total [of _ "metadata_step lines"] metadata_step_total by blast
  let ?P = "\<lambda>m. period_from m = Some (dotted_to_iso g1) \<and> period_to m = Some (dotted_to_iso g2) \<and>
           statement_date m = Some (dotted_to_iso g2)"
  have "?P m2" using metadata_step_period(2) [OF m2 assms(2)] .
  with m3 have "?P m3"
  proof (rule for_each_invariant)
    fix i x a b
    assume "(i, x) \<in> set (enumerate (Suc (length pre)) post)"
      and s: "metadata_step lines i x a = Inr b" and a: "?P a"
    then have "period_search x = None" using assms(3) by (auto dest: in_enumerate_set)
    from metadata_step_period(1) [OF s this] a show "?P b" by simp
  qed
  moreover have "for_each (metadata_step lines) (enumerate 0 lines) m0 = Inr m3"
    unfolding assms(1) enumerate_split for_each_append
    using m1 m2 m3 by (simp add: assms(1))
  ultimately show ?thesis by blast
qed

lemma last_period_line_year:
  assumes "lines = pre @ [l] @ post" and "period_search l = Some (g1, g2)"
    and "\<forall>x \<in> set post. period_search x = None"
  shows "\<exists>m. for_each (metadata_step_year lines) (enumerate 0 lines) m0 = Inr m \<and>
           period_from m = Some (dotted_to_iso g1) \<and> period_to m = Some (dotted_to_iso g2) \<and>
           statement_date m = Some (dotted_to_iso g2) \<and> year m = Some (drop 6 g2)"
proof -
  obtain m1 where m1: "for_each (metadata_step_year lines) (enumerate 0 pre) m0 = Inr m1"
    using for_each_total [of _ "metadata_step_year lines"] metadata_step_year_total by blast
  obtain m2 where m2: "metadata_step_year lines (length pre) l m1 = Inr m2"
    using metadata_step_year_total by blast
  obtain m3 where m3:
    "for_each (metadata_step_year lines) (enumerate (Suc (length pre)) post) m2 = Inr m3"
    using for_each_total [of _ "metadata_step_year lines"] metadata_step_year_total by blast
  let ?P = "\<lambda>m. period_from m = Some (dotted_to_iso g1) \<and> period_to m = Some (dotted_to_iso g2) \<and>
           statement_date m = Some (dotted_to_iso g2) \<and> year m = Some (drop 6 g2)"
  have "?P m2" using metadata_step_year_period(2) [OF m2 assms(2)] .
  with m3 have "?P m3"
  proof (rule for_each_invariant)
    fix i x a b
    assume "(i, x) \<in> set (enumerate (Suc (length pre)) post)"
      and s: "metadata_step_year lines i x a = Inr b" and a: "?P a"
    then have "period_search x = None" using assms(3) by (auto dest: in_enumerate_set)
    from metadata_step_year_period(1) [OF s this] a show "?P b" by simp
  qed
  moreover have "for_each (metadata_step_year lines) (enumerate 0 lines) m0 = Inr m3"
    unfolding assms(1) enumerate_split for_each_append
    using m1 m2 m3 by (simp add: assms(1))
  ultimately show ?thesis by blast
qed

text \<open>
  Claim C5, as amended.  In both variants the statement period comes from the LAST line
  that matches the period pattern: whatever lines precede it, if no later line matches,
  \<^verbatim>\<open>period_from\<close> and \<^verbatim>\<open>period_to\<close> are its two dates rewritten from \<^verbatim>\<open>DD.MM.YYYY\<close> to
  \<^verbatim>\<open>YYYY-MM-DD\<close> and \<^verbatim>\<open>statement_date\<close> equals \<^verbatim>\<open>period_to\<close>; the variant of \<^verbatim>\<open>src/_src\<close>
  also sets \<^verbatim>\<open>year\<close> to the year of the second date.  The extractor returns on every such
  text.
\<close>

theorem period_from_last_matching_line:
  "lines_of text = pre @ [l] @ post \<and> period_search l = Some (g1, g2) \<and>
   (\<forall>x \<in> set post. period_search x = None) \<longrightarrow>
   (\<exists>m. extract_statement_metadata text = Inr m \<and>
        period_from m = Some (dotted_to_iso g1) \<and> period_to m = Some (dotted_to_iso g2) \<and>
        statement_date m = period_to m) \<and>
   (\<exists>m. extract_statement_metadata_year text = Inr m \<and>
        period_from m = Some (dotted_to_iso g1) \<and> period_to m = Some (dotted_to_iso g2) \<and>
        statement_date m = period_to m \<and> year m = Some (drop 6 g2))"
proof (intro impI, elim conjE)
  assume h: "lines_of text = pre @ [l] @ post" "period_search l = Some (g1, g2)"
    "\<forall>x \<in> set post. period_search x = None"
  show "(\<exists>m. extract_statement_metadata text = Inr m \<and>
        period_from m = Some (dotted_to_iso g1) \<and> period_to m = Some (dotted_to_iso g2) \<and>
        statement_date m = period_to m) \<and>
   (\<exists>m. extract_statement_metadata_year text = Inr m \<and>
        period_from m = Some (dotted_to_iso g1) \<and> period_to m = Some (dotted_to_iso g2) \<and>
        statement_date m = period_to m \<and> year m = Some (drop 6 g2))"
    using last_period_line_v1 [OF h] last_period_line_year [OF h]
    unfolding extract_statement_metadata_def extract_statement_metadata_year_def Let_def
    by (metis (no_types, lifting))
qed

text \<open>
  Two period lines: the fields are those of the second.
\<close>

theorem period_last_line_witness:
  "\<exists>m. extract_statement_metadata
          ''from 01.01.2020 to 31.01.2020\<newline>x\<newline>From 01.02.2021  TO 28.02.2021\<newline>y'' = Inr m \<and>
       period_from m = Some ''2021-02-01'' \<and> period_to m = Some ''2021-02-28''"
proof -
  have h: "lines_of ''from 01.01.2020 to 31.01.2020\<newline>x\<newline>From 01.02.2021  TO 28.02.2021\<newline>y'' =
      [''from 01.01.2020 to 31.01.2020'', ''x''] @ [''From 01.02.2021  TO 28.02.2021''] @ [''y''] \<and>
    period_search ''From 01.02.2021  TO 28.02.2021'' = Some (''01.02.2021'', ''28.02.2021'') \<and>
    (\<forall>x \<in> set [''y'']. period_search x = None)"
    by code_simp
  have d: "dotted_to_iso ''01.02.2021'' = ''2021-02-01''" "dotted_to_iso ''28.02.2021'' = ''2021-02-28''"
    by code_simp+
  show ?thesis
    using period_from_last_matching_line [THEN mp, OF h, THEN conjunct1, unfolded d]
    by blast
qed

text \<open>
  The claim as stated, that the first matching line fixes the period and a later one
  does not change it, fails in both variants: the second period line overwrites the
  first.
\<close>

theorem period_first_line_counterexample:
  "extract_statement_metadata ''from 01.01.2020 to 31.01.2020\<newline>from 01.02.2021 to 28.02.2021'' =
     Inr \<lparr>statement_date = Some ''2021-02-28'', period_from = Some ''2021-02-01'',
          period_to = Some ''2021-02-28'', opening_balance = None, closing_balance = None\<rparr> \<and>
   extract_statement_metadata_year ''from 01.01.2020 to 31.01.2020\<newline>from 01.02.2021 to 28.02.2021'' =
     Inr \<lparr>statement_date = Some ''2021-02-28'', period_from = Some ''2021-02-01'',
          period_to = Some ''2021-02-28'', opening_balance = None, closing_balance = None,
          year = Some ''2021''\<rparr>"
  by code_simp

lemma set_period_year_balances:
  assumes "set_period_year line m = Inr m1"
  shows "opening_balance m1 = opening_balance m" "closing_balance m1 = closing_balance m"
  using assms
  by (cases "period_search line"; auto simp: set_period_year_none set_period_year_some)+

lemma metadata_step_year_opening:
  assumes "metadata_step_year lines i line m = Inr m'"
  shows "\<not> has_previous_balance line \<or> truthy (opening_balance m) \<Longrightarrow>
           opening_balance m' = opening_balance m"
    and "has_previous_balance line \<Longrightarrow> \<not> truthy (opening_balance m) \<Longrightarrow>
         scan_balance lines [i + 1 ..< min (i + 25) (length lines)] = Inr r \<Longrightarrow>
           opening_balance m' = (case r of None \<Rightarrow> opening_balance m | Some b \<Rightarrow> Some b)"
proof -
  obtain m1 where m1: "set_period_year line m = Inr m1"
    using assms by (auto simp: metadata_step_year_def split: sum.splits)
  note b = set_period_year_balances [OF m1]
  show "opening_balance m' = opening_balance m"
    if "\<not> has_previous_balance line \<or> truthy (opening_balance m)"
    using assms that b unfolding metadata_step_year_def m1 has_previous_balance_def
    by (auto split: sum.splits option.splits if_splits)
  show "opening_balance m' = (case r of None \<Rightarrow> opening_balance m | Some b \<Rightarrow> Some b)"
    if "has_previous_balance line" "\<not> truthy (opening_balance m)"
      "scan_balance lines [i + 1 ..< min (i + 25) (length lines)] = Inr r"
    using assms that b unfolding metadata_step_year_def m1 has_previous_balance_def
    by (auto split: sum.splits option.splits if_splits)
qed

lemma split_on_no_sep: "p \<in> set (split_on c s) \<Longrightarrow> c \<notin> set p"
proof (induction s arbitrary: p)
  case Nil
  then show ?case by simp
next
  case (Cons x s)
  then show ?case by (cases "split_on c s") (auto split: if_splits)
qed

lemma set_strip: "set (strip s) \<subseteq> set s"
  by (auto simp: strip_def dest!: set_dropWhileD)

lemma lines_of_no_newline: "l \<in> set (lines_of text) \<Longrightarrow> CHR 0x0A \<notin> set l"
  using split_on_no_sep set_strip by (fastforce simp: lines_of_def)

lemma lines_of_money_group: "l \<in> set (lines_of text) \<Longrightarrow> money_group l = l"
proof -
  assume l: "l \<in> set (lines_of text)"
  have "\<not> (l \<noteq> [] \<and> last l = CHR 0x0A)"
  proof
    assume a: "l \<noteq> [] \<and> last l = CHR 0x0A"
    then have "l \<noteq> []" by simp
    then have "last l \<in> set l" by (rule last_in_set)
    with a lines_of_no_newline [OF l] show False by simp
  qed
  then show ?thesis unfolding money_group_def by (simp only: if_False)
qed

lemma upt_split_at:
  assumes "a \<le> j" and "j < b"
  shows "[a ..< b] = [a ..< j] @ j # [Suc j ..< b]"
proof -
  have "[a ..< j + (b - j)] = [a ..< j] @ [j ..< j + (b - j)]"
    using assms(1) by (rule upt_add_eq_append)
  moreover have "j + (b - j) = b" using assms(2) by simp
  ultimately have "[a ..< b] = [a ..< j] @ [j ..< b]" by (simp only:)
  moreover have "[j ..< b] = j # [Suc j ..< b]" using assms(2) by (rule upt_conv_Cons)
  ultimately show ?thesis by (simp only:)
qed

lemma opening_from_first_phrase:
  assumes lines: "lines = pre @ [p] @ gap @ [mn] @ post"
    and pre: "\<forall>i \<in> set [0 ..< length pre]. has_previous_balance (lines ! i) \<longrightarrow>
      (\<forall>j \<in> set [i + 1 ..< min (i + 25) (length lines)]. \<not> is_money (lines ! j))"
    and p: "has_previous_balance p"
    and gap: "\<forall>x \<in> set gap. \<not> is_money x" "length gap < 24"
    and mn: "is_money mn"
    and m0: "opening_balance m0 = None"
  shows "\<exists>m. for_each (metadata_step_year lines) (enumerate 0 lines) m0 = Inr m \<and>
             opening_balance m = Some (strip (money_group mn))"
proof -
  let ?i = "length pre"
  let ?j = "Suc (length pre + length gap)"
  let ?hi = "min (?i + 25) (length lines)"
  obtain m1 where m1: "for_each (metadata_step_year lines) (enumerate 0 pre) m0 = Inr m1"
    using for_each_total [of _ "metadata_step_year lines"] metadata_step_year_total by blast
  obtain m2 where m2: "metadata_step_year lines ?i p m1 = Inr m2"
    using metadata_step_year_total by blast
  obtain m3 where m3:
    "for_each (metadata_step_year lines) (enumerate (Suc ?i) (gap @ [mn] @ post)) m2 = Inr m3"
    using for_each_total [of _ "metadata_step_year lines"] metadata_step_year_total by blast
  have o1: "opening_balance m1 = None"
    using m1 m0
  proof (rule for_each_invariant)
    fix i x a b
    assume mem: "(i, x) \<in> set (enumerate 0 pre)"
      and s: "metadata_step_year lines i x a = Inr b" and a: "opening_balance a = None"
    from mem have i: "i < length pre" "x = lines ! i"
      by (auto simp: in_set_enumerate_eq lines nth_append)
    show "opening_balance b = None"
    proof (cases "has_previous_balance x")
      case False
      with metadata_step_year_opening(1) [OF s] a show ?thesis by simp
    next
      case True
      with pre i have "\<forall>j \<in> set [i + 1 ..< min (i + 25) (length lines)].
          j < length lines \<and> \<not> is_money (lines ! j)" by auto
      then have "scan_balance lines [i + 1 ..< min (i + 25) (length lines)] = Inr None"
        by (rule scan_balance_none)
      from metadata_step_year_opening(2) [OF s True _ this] a show ?thesis by simp
    qed
  qed
  have jhi: "?j < ?hi" using gap(2) by (simp add: lines)
  have range: "[?i + 1 ..< ?hi] = [?i + 1 ..< ?j] @ ?j # [Suc ?j ..< ?hi]"
    using jhi by (intro upt_split_at) simp
  have before: "\<forall>k \<in> set [?i + 1 ..< ?j]. k < length lines \<and> \<not> is_money (lines ! k)"
  proof
    fix k assume "k \<in> set [?i + 1 ..< ?j]"
    then have k: "?i < k" "k < ?j" by auto
    then have "lines ! k = gap ! (k - Suc ?i)"
      by (auto simp: lines nth_append nth_Cons')
    moreover have "gap ! (k - Suc ?i) \<in> set gap" using k by (intro nth_mem) auto
    ultimately show "k < length lines \<and> \<not> is_money (lines ! k)"
      using gap(1) k by (simp add: lines)
  qed
  have at: "?j < length lines" "lines ! ?j = mn"
    by (simp_all add: lines nth_append)
  have scan: "scan_balance lines [?i + 1 ..< ?hi] = Inr (Some (strip (money_group mn)))"
    unfolding range using scan_balance_first [OF before at(1), of "[Suc ?j ..< ?hi]"] mn
    by (simp add: at(2))
  have o2: "opening_balance m2 = Some (strip (money_group mn))"
    using metadata_step_year_opening(2) [OF m2 p _ scan] o1 by simp
  have ne: "strip (money_group mn) \<noteq> []" using scan by (rule scan_balance_truthy)
  have o3: "opening_balance m3 = Some (strip (money_group mn))"
    using m3 o2
  proof (rule for_each_invariant)
    fix i x a b
    assume s: "metadata_step_year lines i x a = Inr b"
      and a: "opening_balance a = Some (strip (money_group mn))"
    then have "truthy (opening_balance a)" using ne by simp
    with metadata_step_year_opening(1) [OF s] a
    show "opening_balance b = Some (strip (money_group mn))" by simp
  qed
  have "for_each (metadata_step_year lines) (enumerate 0 lines) m0 = Inr m3"
    using m1 m2 m3 enumerate_split [of pre p "gap @ [mn] @ post"]
    by (simp add: lines for_each_append)
  with o3 show ?thesis by blast
qed

lemma opening_stays_null:
  assumes win: "\<forall>i \<in> set [0 ..< length lines]. has_previous_balance (lines ! i) \<longrightarrow>
      (\<forall>j \<in> set [i + 1 ..< min (i + 25) (length lines)]. \<not> is_money (lines ! j))"
    and m0: "opening_balance m0 = None"
  shows "\<exists>m. for_each (metadata_step_year lines) (enumerate 0 lines) m0 = Inr m \<and>
             opening_balance m = None"
proof -
  obtain m where m: "for_each (metadata_step_year lines) (enumerate 0 lines) m0 = Inr m"
    using for_each_total [of _ "metadata_step_year lines"] metadata_step_year_total by blast
  from m m0 have "opening_balance m = None"
  proof (rule for_each_invariant)
    fix i x a b
    assume mem: "(i, x) \<in> set (enumerate 0 lines)"
      and s: "metadata_step_year lines i x a = Inr b" and a: "opening_balance a = None"
    from mem have i: "i < length lines" "x = lines ! i" by (auto simp: in_set_enumerate_eq)
    show "opening_balance b = None"
    proof (cases "has_previous_balance x")
      case False
      with metadata_step_year_opening(1) [OF s] a show ?thesis by simp
    next
      case True
      with win i have "\<forall>j \<in> set [i + 1 ..< min (i + 25) (length lines)].
          j < length lines \<and> \<not> is_money (lines ! j)" by auto
      then have "scan_balance lines [i + 1 ..< min (i + 25) (length lines)] = Inr None"
        by (rule scan_balance_none)
      from metadata_step_year_opening(2) [OF s True _ this] a show ?thesis by simp
    qed
  qed
  with m show ?thesis by blast
qed


text \<open>
  Claim C4, as amended, for the variant of \<^verbatim>\<open>src/_src\<close>.  A line that contains
  \<^verbatim>\<open>previous balance\<close> (in any case) starts a search through the 24 lines that follow it.
  At the first such line that has a money token among those 24 lines, the first money
  token after it becomes the opening balance, whatever comes later in the text, so later
  occurrences of the phrase do not overwrite it.  When no line containing the phrase has
  a money token among the 24 lines after it, the opening balance stays null.  The
  extractor returns in both cases.
\<close>

theorem opening_balance_set_once:
  "(lines_of text = pre @ [p] @ gap @ [mn] @ post \<and>
    (\<forall>i \<in> set [0 ..< length pre]. has_previous_balance (lines_of text ! i) \<longrightarrow>
       (\<forall>j \<in> set [i + 1 ..< min (i + 25) (length (lines_of text))].
          \<not> is_money (lines_of text ! j))) \<and>
    has_previous_balance p \<and>
    (\<forall>x \<in> set gap. \<not> is_money x) \<and> length gap < 24 \<and> is_money mn \<longrightarrow>
    (\<exists>m. extract_statement_metadata_year text = Inr m \<and> opening_balance m = Some mn)) \<and>
   ((\<forall>i \<in> set [0 ..< length (lines_of text)]. has_previous_balance (lines_of text ! i) \<longrightarrow>
       (\<forall>j \<in> set [i + 1 ..< min (i + 25) (length (lines_of text))].
          \<not> is_money (lines_of text ! j))) \<longrightarrow>
    (\<exists>m. extract_statement_metadata_year text = Inr m \<and> opening_balance m = None))"
proof (intro conjI impI)
  assume h: "lines_of text = pre @ [p] @ gap @ [mn] @ post \<and>
    (\<forall>i \<in> set [0 ..< length pre]. has_previous_balance (lines_of text ! i) \<longrightarrow>
       (\<forall>j \<in> set [i + 1 ..< min (i + 25) (length (lines_of text))].
          \<not> is_money (lines_of text ! j))) \<and>
    has_previous_balance p \<and>
    (\<forall>x \<in> set gap. \<not> is_money x) \<and> length gap < 24 \<and> is_money mn"
  then have "mn \<in> set (lines_of text)" by simp
  then have mn: "strip (money_group mn) = mn"
    by (simp add: lines_of_money_group lines_of_stripped)
  let ?m0 = "\<lparr>statement_date = None, period_from = None, period_to = None,
          opening_balance = None, closing_balance = None, year = None\<rparr>"
  have "\<exists>m. for_each (metadata_step_year (lines_of text)) (enumerate 0 (lines_of text)) ?m0 = Inr m \<and>
          opening_balance m = Some (strip (money_group mn))"
  proof (rule opening_from_first_phrase)
    show "lines_of text = pre @ [p] @ gap @ [mn] @ post" using h by (rule conjunct1)
    show "\<forall>i \<in> set [0 ..< length pre]. has_previous_balance (lines_of text ! i) \<longrightarrow>
       (\<forall>j \<in> set [i + 1 ..< min (i + 25) (length (lines_of text))].
          \<not> is_money (lines_of text ! j))" using h by blast
    show "has_previous_balance p" using h by blast
    show "\<forall>x \<in> set gap. \<not> is_money x" using h by blast
    show "length gap < 24" using h by blast
    show "is_money mn" using h by blast
    show "opening_balance ?m0 = None" by simp
  qed
  then show "\<exists>m. extract_statement_metadata_year text = Inr m \<and> opening_balance m = Some mn"
    unfolding mn extract_statement_metadata_year_def Let_def .
next
  assume "\<forall>i \<in> set [0 ..< length (lines_of text)]. has_previous_balance (lines_of text ! i) \<longrightarrow>
       (\<forall>j \<in> set [i + 1 ..< min (i + 25) (length (lines_of text))].
          \<not> is_money (lines_of text ! j))"
  then show "\<exists>m. extract_statement_metadata_year text = Inr m \<and> opening_balance m = None"
    using opening_stays_null [of "lines_of text"
        "\<lparr>statement_date = None, period_from = None, period_to = None,
          opening_balance = None, closing_balance = None, year = None\<rparr>"]
    by (simp add: extract_statement_metadata_year_def Let_def)
qed

text \<open>
  A balance three lines after the phrase, with a second phrase and amount after it; and
  a money token 25 lines after the phrase, one line beyond the window.
\<close>

theorem opening_balance_witness:
  "(\<exists>m. extract_statement_metadata_year
          ''Previous Balance as at 15.12.2020\<newline>EUR\<newline>\<newline>1,200.00\<newline>previous balance\<newline>9.99'' = Inr m \<and>
        opening_balance m = Some ''1,200.00'') \<and>
   (\<exists>m. extract_statement_metadata_year
          ''previous balance\<newline>1\<newline>2\<newline>3\<newline>4\<newline>5\<newline>6\<newline>7\<newline>8\<newline>9\<newline>10\<newline>11\<newline>12\<newline>13\<newline>14\<newline>15\<newline>16\<newline>17\<newline>18\<newline>19\<newline>20\<newline>21\<newline>22\<newline>23\<newline>24\<newline>7.50'' = Inr m \<and>
        opening_balance m = None)"
proof -
  have a: "lines_of ''Previous Balance as at 15.12.2020\<newline>EUR\<newline>\<newline>1,200.00\<newline>previous balance\<newline>9.99'' =
      [] @ [''Previous Balance as at 15.12.2020''] @ [''EUR'', []] @ [''1,200.00''] @
        [''previous balance'', ''9.99''] \<and>
    (\<forall>i \<in> set [0 ..< length ([]::string list)].
       has_previous_balance (lines_of ''Previous Balance as at 15.12.2020\<newline>EUR\<newline>\<newline>1,200.00\<newline>previous balance\<newline>9.99'' ! i) \<longrightarrow>
       (\<forall>j \<in> set [i + 1 ..< min (i + 25) (length (lines_of ''Previous Balance as at 15.12.2020\<newline>EUR\<newline>\<newline>1,200.00\<newline>previous balance\<newline>9.99''))].
          \<not> is_money (lines_of ''Previous Balance as at 15.12.2020\<newline>EUR\<newline>\<newline>1,200.00\<newline>previous balance\<newline>9.99'' ! j))) \<and>
    has_previous_balance ''Previous Balance as at 15.12.2020'' \<and>
    (\<forall>x \<in> set [''EUR'', []]. \<not> is_money x) \<and> length [''EUR'', []::string] < 24 \<and>
    is_money ''1,200.00''"
    by code_simp
  have b: "\<forall>i \<in> set [0 ..< length (lines_of ''previous balance\<newline>1\<newline>2\<newline>3\<newline>4\<newline>5\<newline>6\<newline>7\<newline>8\<newline>9\<newline>10\<newline>11\<newline>12\<newline>13\<newline>14\<newline>15\<newline>16\<newline>17\<newline>18\<newline>19\<newline>20\<newline>21\<newline>22\<newline>23\<newline>24\<newline>7.50'')].
      has_previous_balance (lines_of ''previous balance\<newline>1\<newline>2\<newline>3\<newline>4\<newline>5\<newline>6\<newline>7\<newline>8\<newline>9\<newline>10\<newline>11\<newline>12\<newline>13\<newline>14\<newline>15\<newline>16\<newline>17\<newline>18\<newline>19\<newline>20\<newline>21\<newline>22\<newline>23\<newline>24\<newline>7.50'' ! i) \<longrightarrow>
       (\<forall>j \<in> set [i + 1 ..< min (i + 25) (length (lines_of ''previous balance\<newline>1\<newline>2\<newline>3\<newline>4\<newline>5\<newline>6\<newline>7\<newline>8\<newline>9\<newline>10\<newline>11\<newline>12\<newline>13\<newline>14\<newline>15\<newline>16\<newline>17\<newline>18\<newline>19\<newline>20\<newline>21\<newline>22\<newline>23\<newline>24\<newline>7.50''))].
          \<not> is_money (lines_of ''previous balance\<newline>1\<newline>2\<newline>3\<newline>4\<newline>5\<newline>6\<newline>7\<newline>8\<newline>9\<newline>10\<newline>11\<newline>12\<newline>13\<newline>14\<newline>15\<newline>16\<newline>17\<newline>18\<newline>19\<newline>20\<newline>21\<newline>22\<newline>23\<newline>24\<newline>7.50'' ! j))"
    by code_simp
  show ?thesis
    using opening_balance_set_once [THEN conjunct1, THEN mp, OF a]
      opening_balance_set_once [THEN conjunct2, THEN mp, OF b]
    by (rule conjI)
qed

text \<open>
  The claim as stated fails in the variant of \<^verbatim>\<open>src\<close>: a second occurrence of the phrase
  overwrites the opening balance, and a money token five lines after the phrase is
  already out of reach.
\<close>

theorem opening_balance_overwritten_counterexample:
  "extract_statement_metadata ''Previous balance\<newline>1.00\<newline>previous balance\<newline>2.00'' =
     Inr \<lparr>statement_date = None, period_from = None, period_to = None,
          opening_balance = Some ''2.00'', closing_balance = None\<rparr> \<and>
   extract_statement_metadata ''previous balance\<newline>a\<newline>b\<newline>c\<newline>d\<newline>1.00'' =
     Inr \<lparr>statement_date = None, period_from = None, period_to = None,
          opening_balance = None, closing_balance = None\<rparr>"
  by code_simp

lemma int_body_digits: "\<forall>c \<in> set ds. is_digit c \<Longrightarrow> \<exists>n. int_body acc ds = Some n"
  by (induction ds arbitrary: acc) simp_all

lemma py_int_digits:
  assumes "ds \<noteq> []" and "\<forall>c \<in> set ds. is_digit c" and "length ds \<le> int_max_str_digits"
  shows "\<exists>n. py_int ds = Some n"
proof -
  from assms have "is_digit (hd ds)" "is_digit (last ds)" by simp_all
  then have "int_strip ds = ds" using assms(1) by (intro int_strip_id) (simp_all add: digit_facts)
  moreover have "length (filter is_digit ds) \<le> int_max_str_digits"
    by (rule order_trans [OF length_filter_le assms(3)])
  moreover obtain c cs where ds: "ds = c # cs" using assms(1) by (cases ds) auto
  moreover have "is_digit c" using assms(2) ds by simp
  moreover obtain n where "int_body (digit_val c) cs = Some n"
    using int_body_digits [of cs] assms(2) ds by auto
  ultimately show ?thesis
    by (simp add: py_int_def int_unsigned_def digit_facts)
qed

lemma period_year_iso:
  assumes "take_date s = Some (g, r)"
  shows "\<exists>n. period_year (Some (dotted_to_iso g)) = Inr (Some n)"
proof -
  from assms obtain a b c d e f x h where g: "g = [a, b, CHR ''.'', c, d, CHR ''.'', e, f, x, h]"
    and dg: "is_digit a" "is_digit b" "is_digit c" "is_digit d" "is_digit e" "is_digit f"
      "is_digit x" "is_digit h"
    by (auto simp: take_date_def split: list.splits if_splits)
  have iso: "dotted_to_iso g = [e, f, x, h, CHR ''-'', c, d, CHR ''-'', a, b]"
    by (simp add: dotted_to_iso_def g)
  have sp: "split_on CHR ''-'' (dotted_to_iso g) = [[e, f, x, h], [c, d], [a, b]]"
    unfolding iso using dg by (simp add: digit_facts)
  obtain n where "py_int [e, f, x, h] = Some n"
    using py_int_digits [of "[e, f, x, h]"] dg by (auto simp: int_max_str_digits_def)
  moreover have "dotted_to_iso g \<noteq> []" by (simp add: iso)
  ultimately show ?thesis by (simp add: sp nth_e_def)
qed

lemma extract_loop_period_total: "\<exists>r. extract_loop_period pf pt lines 0 [] = Inr r"
proof -
  obtain r where "extract_loop lines 0 [] = Inr r" using extract_loop_total by blast
  then show ?thesis using extract_loop_period_eq [of pf pt lines 0 "[]"] by simp
qed

lemma period_fields_parse:
  assumes "extract_statement_metadata_year text = Inr m"
  shows "(\<exists>r. period_year (period_from m) = Inr r) \<and> (\<exists>r. period_year (period_to m) = Inr r)"
proof -
  let ?Q = "\<lambda>m::statement_metadata_year.
    (\<exists>r. period_year (period_from m) = Inr r) \<and> (\<exists>r. period_year (period_to m) = Inr r)"
  from assms have
    "for_each (metadata_step_year (lines_of text)) (enumerate 0 (lines_of text))
       \<lparr>statement_date = None, period_from = None, period_to = None,
        opening_balance = None, closing_balance = None, year = None\<rparr> = Inr m"
    by (simp add: extract_statement_metadata_year_def Let_def)
  moreover have "?Q \<lparr>statement_date = None, period_from = None, period_to = None,
        opening_balance = None, closing_balance = None, year = None\<rparr>" by simp
  ultimately show "?Q m"
  proof (rule for_each_invariant)
    fix i l and a b :: statement_metadata_year
    assume s: "metadata_step_year (lines_of text) i l a = Inr b" and a: "?Q a"
    show "?Q b"
    proof (cases "period_search l")
      case None
      from metadata_step_year_period(1) [OF s None] a show ?thesis by simp
    next
      case (Some gs)
      obtain g1 g2 where gs: "gs = (g1, g2)" by (cases gs)
      from period_search_dates [OF Some [unfolded gs]] obtain s1 r1 s2 r2
        where "take_date s1 = Some (g1, r1)" "take_date s2 = Some (g2, r2)" by blast
      then have "\<exists>n. period_year (Some (dotted_to_iso g1)) = Inr (Some n)"
        "\<exists>n. period_year (Some (dotted_to_iso g2)) = Inr (Some n)"
        by (auto dest: period_year_iso)
      with metadata_step_year_period(2) [OF s Some [unfolded gs]] show ?thesis by auto
    qed
  qed
qed

lemma for_each_idle:
  assumes "\<And>i l. (i, l) \<in> set es \<Longrightarrow> step i l m = Inr m"
  shows "for_each step es m = Inr m"
  using assms by (induction es) auto

lemma metadata_step_idle:
  assumes "period_search line = None" and "\<forall>l \<in> set lines. \<not> is_money l"
  shows "metadata_step lines i line m = Inr m" and "metadata_step_year lines i line my = Inr my"
proof -
  have "scan_balance lines [a ..< min b (length lines)] = Inr None" for a b
    using assms(2) by (intro scan_balance_none) simp
  then show "metadata_step lines i line m = Inr m"
    and "metadata_step_year lines i line my = Inr my"
    using assms(1)
    by (simp_all add: metadata_step_def metadata_step_year_def set_period_none
        set_period_year_none)
qed

lemma set_period_balances:
  assumes "set_period line m = Inr m1"
  shows "opening_balance m1 = opening_balance m" "closing_balance m1 = closing_balance m"
  using assms
  by (cases "period_search line"; auto simp: set_period_none set_period_some)+

lemma metadata_step_balances:
  assumes "metadata_step lines i line m = Inr m'"
  shows "\<not> contains (lower line) ''previous balance'' \<Longrightarrow>
         \<not> contains (lower line) ''balance as at'' \<Longrightarrow>
           opening_balance m' = opening_balance m"
    and "lower line \<noteq> ''new balance'' \<Longrightarrow> closing_balance m' = closing_balance m"
proof -
  obtain m1 where m1: "set_period line m = Inr m1"
    using assms by (auto simp: metadata_step_def split: sum.splits)
  note b = set_period_balances [OF m1]
  show "opening_balance m' = opening_balance m"
    if "\<not> contains (lower line) ''previous balance''" "\<not> contains (lower line) ''balance as at''"
    using assms that b unfolding metadata_step_def m1
    by (auto split: sum.splits option.splits if_splits)
  show "closing_balance m' = closing_balance m" if "lower line \<noteq> ''new balance''"
    using assms that b unfolding metadata_step_def m1
    by (auto split: sum.splits option.splits if_splits)
qed

lemma metadata_step_year_closing:
  assumes "metadata_step_year lines i line m = Inr m'"
    and "\<not> contains (lower line) ''new balance''"
  shows "closing_balance m' = closing_balance m"
proof -
  obtain m1 where m1: "set_period_year line m = Inr m1"
    using assms by (auto simp: metadata_step_year_def split: sum.splits)
  note b = set_period_year_balances [OF m1]
  show ?thesis
    using assms b unfolding metadata_step_year_def m1
    by (auto split: sum.splits option.splits if_splits)
qed

lemma metadata_result:
  obtains m where "extract_statement_metadata text = Inr m"
    and "for_each (metadata_step (lines_of text)) (enumerate 0 (lines_of text))
           \<lparr>statement_date = None, period_from = None, period_to = None,
            opening_balance = None, closing_balance = None\<rparr> = Inr m"
proof -
  obtain m where "for_each (metadata_step (lines_of text)) (enumerate 0 (lines_of text))
           \<lparr>statement_date = None, period_from = None, period_to = None,
            opening_balance = None, closing_balance = None\<rparr> = Inr m"
    using for_each_total [of _ "metadata_step (lines_of text)"] metadata_step_total by blast
  then show ?thesis using that by (simp add: extract_statement_metadata_def Let_def)
qed

lemma metadata_year_result:
  obtains m where "extract_statement_metadata_year text = Inr m"
    and "for_each (metadata_step_year (lines_of text)) (enumerate 0 (lines_of text))
           \<lparr>statement_date = None, period_from = None, period_to = None,
            opening_balance = None, closing_balance = None, year = None\<rparr> = Inr m"
proof -
  obtain m where "for_each (metadata_step_year (lines_of text)) (enumerate 0 (lines_of text))
           \<lparr>statement_date = None, period_from = None, period_to = None,
            opening_balance = None, closing_balance = None, year = None\<rparr> = Inr m"
    using for_each_total [of _ "metadata_step_year (lines_of text)"] metadata_step_year_total
    by blast
  then show ?thesis using that by (simp add: extract_statement_metadata_year_def Let_def)
qed

lemma period_absent:
  assumes "\<forall>l \<in> set (lines_of text). period_search l = None"
  shows "\<exists>m. extract_statement_metadata text = Inr m \<and> period_from m = None \<and>
              period_to m = None \<and> statement_date m = None"
    and "\<exists>m. extract_statement_metadata_year text = Inr m \<and> period_from m = None \<and>
              period_to m = None \<and> statement_date m = None \<and> year m = None"
proof -
  obtain m where m: "extract_statement_metadata text = Inr m"
    and f: "for_each (metadata_step (lines_of text)) (enumerate 0 (lines_of text))
           \<lparr>statement_date = None, period_from = None, period_to = None,
            opening_balance = None, closing_balance = None\<rparr> = Inr m"
    by (rule metadata_result)
  have "period_from m = None \<and> period_to m = None \<and> statement_date m = None"
    using f
  proof (rule for_each_invariant)
    fix i l and a b :: statement_metadata
    assume "(i, l) \<in> set (enumerate 0 (lines_of text))"
      and s: "metadata_step (lines_of text) i l a = Inr b"
      and a: "period_from a = None \<and> period_to a = None \<and> statement_date a = None"
    then have "period_search l = None" using assms by (auto dest: in_enumerate_set)
    from metadata_step_period(1) [OF s this] a
    show "period_from b = None \<and> period_to b = None \<and> statement_date b = None" by simp
  qed simp
  with m show "\<exists>m. extract_statement_metadata text = Inr m \<and> period_from m = None \<and>
              period_to m = None \<and> statement_date m = None" by blast
next
  obtain m where m: "extract_statement_metadata_year text = Inr m"
    and f: "for_each (metadata_step_year (lines_of text)) (enumerate 0 (lines_of text))
           \<lparr>statement_date = None, period_from = None, period_to = None,
            opening_balance = None, closing_balance = None, year = None\<rparr> = Inr m"
    by (rule metadata_year_result)
  have "period_from m = None \<and> period_to m = None \<and> statement_date m = None \<and> year m = None"
    using f
  proof (rule for_each_invariant)
    fix i l and a b :: statement_metadata_year
    assume "(i, l) \<in> set (enumerate 0 (lines_of text))"
      and s: "metadata_step_year (lines_of text) i l a = Inr b"
      and a: "period_from a = None \<and> period_to a = None \<and> statement_date a = None \<and>
              year a = None"
    then have "period_search l = None" using assms by (auto dest: in_enumerate_set)
    from metadata_step_year_period(1) [OF s this] a
    show "period_from b = None \<and> period_to b = None \<and> statement_date b = None \<and> year b = None"
      by simp
  qed simp
  with m show "\<exists>m. extract_statement_metadata_year text = Inr m \<and> period_from m = None \<and>
              period_to m = None \<and> statement_date m = None \<and> year m = None" by blast
qed

lemma opening_absent:
  shows "\<forall>l \<in> set (lines_of text). \<not> contains (lower l) ''previous balance'' \<and>
            \<not> contains (lower l) ''balance as at'' \<Longrightarrow>
         \<exists>m. extract_statement_metadata text = Inr m \<and> opening_balance m = None"
    and "\<forall>l \<in> set (lines_of text). \<not> contains (lower l) ''previous balance'' \<Longrightarrow>
         \<exists>m. extract_statement_metadata_year text = Inr m \<and> opening_balance m = None"
proof -
  assume h: "\<forall>l \<in> set (lines_of text). \<not> contains (lower l) ''previous balance'' \<and>
            \<not> contains (lower l) ''balance as at''"
  obtain m where m: "extract_statement_metadata text = Inr m"
    and f: "for_each (metadata_step (lines_of text)) (enumerate 0 (lines_of text))
           \<lparr>statement_date = None, period_from = None, period_to = None,
            opening_balance = None, closing_balance = None\<rparr> = Inr m"
    by (rule metadata_result)
  have "opening_balance m = None"
    using f
  proof (rule for_each_invariant)
    fix i l and a b :: statement_metadata
    assume "(i, l) \<in> set (enumerate 0 (lines_of text))"
      and s: "metadata_step (lines_of text) i l a = Inr b" and a: "opening_balance a = None"
    then have "\<not> contains (lower l) ''previous balance'' \<and> \<not> contains (lower l) ''balance as at''"
      using h by (auto dest: in_enumerate_set)
    with metadata_step_balances(1) [OF s] a show "opening_balance b = None" by simp
  qed simp
  with m show "\<exists>m. extract_statement_metadata text = Inr m \<and> opening_balance m = None" by blast
next
  assume h: "\<forall>l \<in> set (lines_of text). \<not> contains (lower l) ''previous balance''"
  obtain m where m: "extract_statement_metadata_year text = Inr m"
    and f: "for_each (metadata_step_year (lines_of text)) (enumerate 0 (lines_of text))
           \<lparr>statement_date = None, period_from = None, period_to = None,
            opening_balance = None, closing_balance = None, year = None\<rparr> = Inr m"
    by (rule metadata_year_result)
  have "opening_balance m = None"
    using f
  proof (rule for_each_invariant)
    fix i l and a b :: statement_metadata_year
    assume "(i, l) \<in> set (enumerate 0 (lines_of text))"
      and s: "metadata_step_year (lines_of text) i l a = Inr b" and a: "opening_balance a = None"
    then have "\<not> has_previous_balance l"
      using h by (auto simp: has_previous_balance_def dest: in_enumerate_set)
    with metadata_step_year_opening(1) [OF s] a show "opening_balance b = None" by simp
  qed simp
  with m show "\<exists>m. extract_statement_metadata_year text = Inr m \<and> opening_balance m = None"
    by blast
qed

lemma closing_absent:
  shows "\<forall>l \<in> set (lines_of text). lower l \<noteq> ''new balance'' \<Longrightarrow>
         \<exists>m. extract_statement_metadata text = Inr m \<and> closing_balance m = None"
    and "\<forall>l \<in> set (lines_of text). \<not> contains (lower l) ''new balance'' \<Longrightarrow>
         \<exists>m. extract_statement_metadata_year text = Inr m \<and> closing_balance m = None"
proof -
  assume h: "\<forall>l \<in> set (lines_of text). lower l \<noteq> ''new balance''"
  obtain m where m: "extract_statement_metadata text = Inr m"
    and f: "for_each (metadata_step (lines_of text)) (enumerate 0 (lines_of text))
           \<lparr>statement_date = None, period_from = None, period_to = None,
            opening_balance = None, closing_balance = None\<rparr> = Inr m"
    by (rule metadata_result)
  have "closing_balance m = None"
    using f
  proof (rule for_each_invariant)
    fix i l and a b :: statement_metadata
    assume "(i, l) \<in> set (enumerate 0 (lines_of text))"
      and s: "metadata_step (lines_of text) i l a = Inr b" and a: "closing_balance a = None"
    then have "lower l \<noteq> ''new balance''" using h by (auto dest: in_enumerate_set)
    with metadata_step_balances(2) [OF s] a show "closing_balance b = None" by simp
  qed simp
  with m show "\<exists>m. extract_statement_metadata text = Inr m \<and> closing_balance m = None" by blast
next
  assume h: "\<forall>l \<in> set (lines_of text). \<not> contains (lower l) ''new balance''"
  obtain m where m: "extract_statement_metadata_year text = Inr m"
    and f: "for_each (metadata_step_year (lines_of text)) (enumerate 0 (lines_of text))
           \<lparr>statement_date = None, period_from = None, period_to = None,
            opening_balance = None, closing_balance = None, year = None\<rparr> = Inr m"
    by (rule metadata_year_result)
  have "closing_balance m = None"
    using f
  proof (rule for_each_invariant)
    fix i l and a b :: statement_metadata_year
    assume "(i, l) \<in> set (enumerate 0 (lines_of text))"
      and s: "metadata_step_year (lines_of text) i l a = Inr b" and a: "closing_balance a = None"
    then have "\<not> contains (lower l) ''new balance''" using h by (auto dest: in_enumerate_set)
    with metadata_step_year_closing [OF s] a show "closing_balance b = None" by simp
  qed simp
  with m show "\<exists>m. extract_statement_metadata_year text = Inr m \<and> closing_balance m = None"
    by blast
qed

text \<open>
  Claim C8.  On every text both variants of \<^verbatim>\<open>extract_statement_metadata\<close> and
  \<^verbatim>\<open>extract_transactions\<close> return a value: every index they read is in range, every split
  of a matched date has its three parts, and every loop ends.  The variant of
  \<^verbatim>\<open>extract_transactions\<close> that takes a period returns without a period and with the period
  the metadata extractor found in the same text.  A metadata field whose marker is absent
  stays null, whatever else the text holds: the period fields when no line matches the
  period pattern, the opening balance when no line contains its phrase, the closing
  balance when no line is (in \<^verbatim>\<open>src\<close>) or contains (in \<^verbatim>\<open>src/_src\<close>) its phrase.  On a text
  without a period line and without a money token every field is null.
\<close>

theorem extractors_total:
  "(\<exists>m. extract_statement_metadata text = Inr m) \<and>
   (\<exists>m. extract_statement_metadata_year text = Inr m) \<and>
   (\<exists>ts. extract_transactions text = Inr ts) \<and>
   (\<exists>ts. extract_transactions_period text None None = Inr ts) \<and>
   (\<forall>m. extract_statement_metadata_year text = Inr m \<longrightarrow>
      (\<exists>ts. extract_transactions_period text (period_from m) (period_to m) = Inr ts)) \<and>
   ((\<forall>l \<in> set (lines_of text). period_search l = None) \<longrightarrow>
      (\<exists>m. extract_statement_metadata text = Inr m \<and> period_from m = None \<and>
           period_to m = None \<and> statement_date m = None) \<and>
      (\<exists>m. extract_statement_metadata_year text = Inr m \<and> period_from m = None \<and>
           period_to m = None \<and> statement_date m = None \<and> year m = None)) \<and>
   ((\<forall>l \<in> set (lines_of text). \<not> contains (lower l) ''previous balance'' \<and>
        \<not> contains (lower l) ''balance as at'') \<longrightarrow>
      (\<exists>m. extract_statement_metadata text = Inr m \<and> opening_balance m = None)) \<and>
   ((\<forall>l \<in> set (lines_of text). \<not> contains (lower l) ''previous balance'') \<longrightarrow>
      (\<exists>m. extract_statement_metadata_year text = Inr m \<and> opening_balance m = None)) \<and>
   ((\<forall>l \<in> set (lines_of text). lower l \<noteq> ''new balance'') \<longrightarrow>
      (\<exists>m. extract_statement_metadata text = Inr m \<and> closing_balance m = None)) \<and>
   ((\<forall>l \<in> set (lines_of text). \<not> contains (lower l) ''new balance'') \<longrightarrow>
      (\<exists>m. extract_statement_metadata_year text = Inr m \<and> closing_balance m = None)) \<and>
   ((\<forall>l \<in> set (lines_of text). period_search l = None \<and> \<not> is_money l) \<longrightarrow>
      extract_statement_metadata text =
        Inr \<lparr>statement_date = None, period_from = None, period_to = None,
             opening_balance = None, closing_balance = None\<rparr> \<and>
      extract_statement_metadata_year text =
        Inr \<lparr>statement_date = None, period_from = None, period_to = None,
             opening_balance = None, closing_balance = None, year = None\<rparr>)"
proof -
  have t1: "\<exists>m. extract_statement_metadata text = Inr m"
    using metadata_result [of "text"] by blast
  have t2: "\<exists>m. extract_statement_metadata_year text = Inr m"
    using metadata_year_result [of "text"] by blast
  have t3: "\<exists>ts. extract_transactions text = Inr ts"
    unfolding extract_transactions_def by (rule extract_loop_total)
  have t4: "\<exists>ts. extract_transactions_period text None None = Inr ts"
    using extract_loop_period_total [of None None "lines_of text"]
    by (simp add: extract_transactions_period_def)
  have t5: "\<forall>m. extract_statement_metadata_year text = Inr m \<longrightarrow>
      (\<exists>ts. extract_transactions_period text (period_from m) (period_to m) = Inr ts)"
  proof (intro allI impI)
    fix m assume "extract_statement_metadata_year text = Inr m"
    from period_fields_parse [OF this] obtain r1 r2
      where "period_year (period_from m) = Inr r1" "period_year (period_to m) = Inr r2" by blast
    then show "\<exists>ts. extract_transactions_period text (period_from m) (period_to m) = Inr ts"
      using extract_loop_period_total [of "period_from m" "period_to m" "lines_of text"]
      by (simp add: extract_transactions_period_def)
  qed
  have t6: "(\<forall>l \<in> set (lines_of text). period_search l = None) \<longrightarrow>
      (\<exists>m. extract_statement_metadata text = Inr m \<and> period_from m = None \<and>
           period_to m = None \<and> statement_date m = None) \<and>
      (\<exists>m. extract_statement_metadata_year text = Inr m \<and> period_from m = None \<and>
           period_to m = None \<and> statement_date m = None \<and> year m = None)"
    using period_absent [of "text"] by blast
  have t7: "(\<forall>l \<in> set (lines_of text). \<not> contains (lower l) ''previous balance'' \<and>
        \<not> contains (lower l) ''balance as at'') \<longrightarrow>
      (\<exists>m. extract_statement_metadata text = Inr m \<and> opening_balance m = None)"
    using opening_absent(1) [of "text"] by blast
  have t8: "(\<forall>l \<in> set (lines_of text). \<not> contains (lower l) ''previous balance'') \<longrightarrow>
      (\<exists>m. extract_statement_metadata_year text = Inr m \<and> opening_balance m = None)"
    using opening_absent(2) [of "text"] by blast
  have t9: "(\<forall>l \<in> set (lines_of text). lower l \<noteq> ''new balance'') \<longrightarrow>
      (\<exists>m. extract_statement_metadata text = Inr m \<and> closing_balance m = None)"
    using closing_absent(1) [of "text"] by blast
  have t10: "(\<forall>l \<in> set (lines_of text). \<not> contains (lower l) ''new balance'') \<longrightarrow>
      (\<exists>m. extract_statement_metadata_year text = Inr m \<and> closing_balance m = None)"
    using closing_absent(2) [of "text"] by blast
  have t11: "(\<forall>l \<in> set (lines_of text). period_search l = None \<and> \<not> is_money l) \<longrightarrow>
      extract_statement_metadata text =
        Inr \<lparr>statement_date = None, period_from = None, period_to = None,
             opening_balance = None, closing_balance = None\<rparr> \<and>
      extract_statement_metadata_year text =
        Inr \<lparr>statement_date = None, period_from = None, period_to = None,
             opening_balance = None, closing_balance = None, year = None\<rparr>"
  proof (intro impI conjI)
    assume h: "\<forall>l \<in> set (lines_of text). period_search l = None \<and> \<not> is_money l"
    then have idle: "metadata_step (lines_of text) i l m = Inr m"
      "metadata_step_year (lines_of text) i l my = Inr my"
      if "(i, l) \<in> set (enumerate 0 (lines_of text))" for i l m my
      using that by (auto intro!: metadata_step_idle dest: in_enumerate_set)
    show "extract_statement_metadata text =
        Inr \<lparr>statement_date = None, period_from = None, period_to = None,
             opening_balance = None, closing_balance = None\<rparr>"
      unfolding extract_statement_metadata_def Let_def
      by (rule for_each_idle) (rule idle)
    show "extract_statement_metadata_year text =
        Inr \<lparr>statement_date = None, period_from = None, period_to = None,
             opening_balance = None, closing_balance = None, year = None\<rparr>"
      unfolding extract_statement_metadata_year_def Let_def
      by (rule for_each_idle) (rule idle)
  qed
  from t1 t2 t3 t4 t5 t6 t7 t8 t9 t10 t11 show ?thesis by (intro conjI)
qed

text \<open>
  A statement with a period line, a transaction and its amount, and no balance phrase:
  the period is found and passed on, and both balances stay null.  A text of blank and
  malformed lines: every field is null.
\<close>

theorem extractors_total_witness:
  "(\<exists>ts. extract_transactions_period
           ''Statement from 15.12.2020 to 14.01.2021\<newline>12/16\<newline>12/16\<newline>Card\<newline>- 45.00''
           (Some ''2020-12-15'') (Some ''2021-01-14'') = Inr ts) \<and>
   (\<exists>m. extract_statement_metadata
           ''Statement from 15.12.2020 to 14.01.2021\<newline>12/16\<newline>12/16\<newline>Card\<newline>- 45.00'' = Inr m \<and>
        opening_balance m = None) \<and>
   (\<exists>m. extract_statement_metadata_year
           ''Statement from 15.12.2020 to 14.01.2021\<newline>12/16\<newline>12/16\<newline>Card\<newline>- 45.00'' = Inr m \<and>
        closing_balance m = None) \<and>
   extract_statement_metadata ''\<newline>   \<newline>12/16 Card 45,00'' =
     Inr \<lparr>statement_date = None, period_from = None, period_to = None,
          opening_balance = None, closing_balance = None\<rparr>"
proof -
  have m: "extract_statement_metadata_year
      ''Statement from 15.12.2020 to 14.01.2021\<newline>12/16\<newline>12/16\<newline>Card\<newline>- 45.00'' =
    Inr \<lparr>statement_date = Some ''2021-01-14'', period_from = Some ''2020-12-15'',
         period_to = Some ''2021-01-14'', opening_balance = None, closing_balance = None,
         year = Some ''2021''\<rparr>"
    by code_simp
  have o: "\<forall>l \<in> set (lines_of ''Statement from 15.12.2020 to 14.01.2021\<newline>12/16\<newline>12/16\<newline>Card\<newline>- 45.00'').
      \<not> contains (lower l) ''previous balance'' \<and> \<not> contains (lower l) ''balance as at''"
    by code_simp
  have c: "\<forall>l \<in> set (lines_of ''Statement from 15.12.2020 to 14.01.2021\<newline>12/16\<newline>12/16\<newline>Card\<newline>- 45.00'').
      \<not> contains (lower l) ''new balance''"
    by code_simp
  have h: "\<forall>l \<in> set (lines_of ''\<newline>   \<newline>12/16 Card 45,00''). period_search l = None \<and> \<not> is_money l"
    by code_simp
  note c5 = conjunct2 [THEN conjunct2, THEN conjunct2, THEN conjunct2, THEN conjunct1]
  note c7 = conjunct2 [THEN conjunct2, THEN conjunct2, THEN conjunct2, THEN conjunct2,
      THEN conjunct2, THEN conjunct1, THEN mp]
  note c10 = conjunct2 [THEN conjunct2, THEN conjunct2, THEN conjunct2, THEN conjunct2,
      THEN conjunct2, THEN conjunct2, THEN conjunct2, THEN conjunct2, THEN conjunct1, THEN mp]
  note c11 = conjunct2 [THEN conjunct2, THEN conjunct2, THEN conjunct2, THEN conjunct2,
      THEN conjunct2, THEN conjunct2, THEN conjunct2, THEN conjunct2, THEN conjunct2, THEN mp,
      THEN conjunct1]
  have "\<exists>ts. extract_transactions_period
           ''Statement from 15.12.2020 to 14.01.2021\<newline>12/16\<newline>12/16\<newline>Card\<newline>- 45.00''
           (Some ''2020-12-15'') (Some ''2021-01-14'') = Inr ts"
    using extractors_total [THEN c5, THEN spec, THEN mp, OF m] by simp
  moreover have "\<exists>m. extract_statement_metadata
           ''Statement from 15.12.2020 to 14.01.2021\<newline>12/16\<newline>12/16\<newline>Card\<newline>- 45.00'' = Inr m \<and>
        opening_balance m = None"
    using extractors_total [THEN c7, OF o] .
  moreover have "\<exists>m. extract_statement_metadata_year
           ''Statement from 15.12.2020 to 14.01.2021\<newline>12/16\<newline>12/16\<newline>Card\<newline>- 45.00'' = Inr m \<and>
        closing_balance m = None"
    using extractors_total [THEN c10, OF c] .
  moreover have "extract_statement_metadata ''\<newline>   \<newline>12/16 Card 45,00'' =
     Inr \<lparr>statement_date = None, period_from = None, period_to = None,
          opening_balance = None, closing_balance = None\<rparr>"
    using extractors_total [THEN c11, OF h] .
  ultimately show ?thesis by (intro conjI)
qed

text \<open>
  Outside what the claim covers: called directly with a period whose first part is not an
  integer, the variant of \<^verbatim>\<open>src/_src\<close> raises, since it reads the year before the loop
  and outside any \<^verbatim>\<open>try\<close>.
\<close>

lemma period_variant_raises:
  "extract_transactions_period ''12/16'' (Some ''Dec 2020'') None = Inl ValueError"
  by code_simp

end
